theory Spec2Isabelle
  imports Main
begin

section \<open>JavaScript values\<close>

text \<open>
  The agent response envelope is untyped data that arrives over the network, and the
  extraction functions probe it field by field. It is modelled as a JavaScript value.
  An object is the list of its own properties in the order \<^verbatim>\<open>Object.keys\<close>
  enumerates them; a property read takes the first binding of the key. Numbers are
  modelled by integers, standing for the integers that JavaScript prints in decimal
  (magnitude below \<^verbatim>\<open>1e21\<close>); no claim depends on a fractional or a larger number. A
  string is a list of code units below 256.
\<close>

datatype jv =
    JUndefined
  | JNull
  | JBool bool
  | JNum int
  | JStr string
  | JArr "jv list"
  | JObj "(string \<times> jv) list"

text \<open>ToBoolean, as used by \<^verbatim>\<open>if (v)\<close>, \<^verbatim>\<open>!v\<close> and \<^verbatim>\<open>a || b\<close>.\<close>

fun truthy :: "jv \<Rightarrow> bool" where
  "truthy JUndefined = False"
| "truthy JNull = False"
| "truthy (JBool b) = b"
| "truthy (JNum n) = (n \<noteq> 0)"
| "truthy (JStr s) = (s \<noteq> [])"
| "truthy (JArr xs) = True"
| "truthy (JObj kvs) = True"

definition nullish :: "jv \<Rightarrow> bool" where
  "nullish v = (v = JUndefined \<or> v = JNull)"

text \<open>
  The property reads \<^verbatim>\<open>v.k\<close> and \<^verbatim>\<open>v?.k\<close> for the property names the program uses.
  None of these names is a property of an array, a string, a number or a boolean, so the
  read yields \<^verbatim>\<open>undefined\<close> there. On \<^verbatim>\<open>null\<close> and \<^verbatim>\<open>undefined\<close> the read
  \<^verbatim>\<open>v?.k\<close> is \<^verbatim>\<open>undefined\<close>; the plain read \<^verbatim>\<open>v.k\<close> throws a TypeError, which the
  callers below model at the places where the source can reach it.
\<close>

fun get :: "jv \<Rightarrow> string \<Rightarrow> jv" where
  "get (JObj kvs) k = (case map_of kvs k of Some v \<Rightarrow> v | None \<Rightarrow> JUndefined)"
| "get v k = JUndefined"

text \<open>\<^verbatim>\<open>xs[0]\<close> on an array: \<^verbatim>\<open>undefined\<close> when the array is empty.\<close>

fun at0 :: "jv list \<Rightarrow> jv" where
  "at0 [] = JUndefined"
| "at0 (x # xs) = x"

text \<open>\<^verbatim>\<open>Array.isArray(v) && v.length > 0\<close>\<close>

fun nonempty_array :: "jv \<Rightarrow> bool" where
  "nonempty_array (JArr (x # xs)) = True"
| "nonempty_array v = False"

text \<open>\<^verbatim>\<open>a || b\<close>\<close>

definition or_js :: "jv \<Rightarrow> jv \<Rightarrow> jv" where
  "or_js a b = (if truthy a then a else b)"

text \<open>
  \<^verbatim>\<open>Object.keys(v).map(k => v[k])\<close>: the own enumerable properties of an object, the
  elements of an array, the characters of a string, nothing for the other primitives.
\<close>

fun own_values :: "jv \<Rightarrow> jv list" where
  "own_values (JObj kvs) = map (\<lambda>k. get (JObj kvs) k) (map fst kvs)"
| "own_values (JArr xs) = xs"
| "own_values (JStr s) = map (\<lambda>c. JStr [c]) s"
| "own_values v = []"

section \<open>Regular expressions\<close>

text \<open>
  The two URL patterns are regular-expression literals. They are embedded as terms of a
  small regular-expression type and run by a backtracking matcher that returns, in the
  order in which the JavaScript matcher tries them, the remainders of the input after
  each way of matching: a greedy quantifier tries the longest repetition first, an
  alternation tries its alternatives from left to right.
\<close>

datatype atom = Lit char | NoneOf "char list"

datatype rx =
    Eps
  | Never
  | Atom atom
  | Seq rx rx
  | Alt rx rx
  | Opt rx
  | Plus atom

text \<open>
  Canonicalisation under the \<^verbatim>\<open>i\<close> flag. The patterns contain ASCII characters only, and a
  character above 127 is never identified with one below 128, so only the ASCII letters
  are folded.
\<close>

definition canon :: "char \<Rightarrow> char" where
  "canon c =
     (if (97::nat) \<le> of_char c \<and> of_char c \<le> (122::nat)
      then char_of (of_char c - (32::nat)) else c)"

fun atom_ok :: "bool \<Rightarrow> atom \<Rightarrow> char \<Rightarrow> bool" where
  "atom_ok ic (Lit x) c = (if ic then canon x = canon c else x = c)"
| "atom_ok ic (NoneOf xs) c = (if ic then canon c \<notin> set (map canon xs) else c \<notin> set xs)"

fun plus_rems :: "bool \<Rightarrow> atom \<Rightarrow> string \<Rightarrow> string list" where
  "plus_rems ic a [] = []"
| "plus_rems ic a (c # cs) = (if atom_ok ic a c then plus_rems ic a cs @ [cs] else [])"

fun ms :: "bool \<Rightarrow> rx \<Rightarrow> string \<Rightarrow> string list" where
  "ms ic Eps s = [s]"
| "ms ic Never s = []"
| "ms ic (Atom a) s = (case s of [] \<Rightarrow> [] | c # cs \<Rightarrow> if atom_ok ic a c then [cs] else [])"
| "ms ic (Seq r1 r2) s = concat (map (ms ic r2) (ms ic r1 s))"
| "ms ic (Alt r1 r2) s = ms ic r1 s @ ms ic r2 s"
| "ms ic (Opt r) s = ms ic r s @ [s]"
| "ms ic (Plus a) s = plus_rems ic a s"

text \<open>
  \<^verbatim>\<open>s.match(re)\<close> for a pattern without the \<^verbatim>\<open>g\<close> flag, projected to element 0 of the
  result: the text matched at the leftmost position where the pattern matches, or
  nothing (\<^verbatim>\<open>null\<close>).
\<close>

fun search :: "bool \<Rightarrow> rx \<Rightarrow> string \<Rightarrow> string option" where
  "search ic r [] = (case ms ic r [] of [] \<Rightarrow> None | rest # _ \<Rightarrow> Some [])"
| "search ic r (c # cs) =
     (case ms ic r (c # cs) of
        [] \<Rightarrow> search ic r cs
      | rest # _ \<Rightarrow> Some (take (length (c # cs) - length rest) (c # cs)))"

fun lit :: "string \<Rightarrow> rx" where
  "lit [] = Eps"
| "lit (c # cs) = Seq (Atom (Lit c)) (lit cs)"

fun alts :: "string list \<Rightarrow> rx" where
  "alts [] = Never"
| "alts (e # es) = Alt (lit e) (alts es)"

text \<open>The class \<^verbatim>\<open>\s\<close> on code units below 256: TAB, LF, VT, FF, CR, SP, NBSP.\<close>

definition ws_chars :: "char list" where
  "ws_chars = [CHR 0x09, CHR 0x0A, CHR 0x0B, CHR 0x0C, CHR 0x0D, CHR 0x20, CHR 0xA0]"

text \<open>\<^verbatim>\<open>https?:\/\/[^...]+\.(e1|e2|...)\<close> with the excluded characters and the extensions given.\<close>

definition url_rx :: "char list \<Rightarrow> string list \<Rightarrow> rx" where
  "url_rx excl exts =
     Seq (lit ''http'') (Seq (Opt (Atom (Lit CHR ''s''))) (Seq (lit ''://'')
       (Seq (Plus (NoneOf excl)) (Seq (Atom (Lit CHR ''.'')) (alts exts)))))"

text \<open>\<^verbatim>\<open>[^\s"'<>]\<close> and \<^verbatim>\<open>(png|jpg|jpeg|webp|gif|svg|bmp)\<close> of the pattern applied to the message.\<close>

definition message_excluded :: "char list" where
  "message_excluded = ws_chars @ [CHR 0x22, CHR 0x27, CHR ''<'', CHR ''>'']"

definition message_extensions :: "string list" where
  "message_extensions = [''png'', ''jpg'', ''jpeg'', ''webp'', ''gif'', ''svg'', ''bmp'']"

text \<open>\<^verbatim>\<open>[^\s"'<>\\]\<close> and \<^verbatim>\<open>(png|jpg|jpeg|webp|gif)\<close> of the pattern applied to the raw response.\<close>

definition raw_excluded :: "char list" where
  "raw_excluded = ws_chars @ [CHR 0x22, CHR 0x27, CHR ''<'', CHR ''>'', CHR 0x5C]"

definition raw_extensions :: "string list" where
  "raw_extensions = [''png'', ''jpg'', ''jpeg'', ''webp'', ''gif'']"

definition message_url_match :: "string \<Rightarrow> string option" where
  "message_url_match s = search True (url_rx message_excluded message_extensions) s"

definition raw_url_match :: "string \<Rightarrow> string option" where
  "raw_url_match s = search True (url_rx raw_excluded raw_extensions) s"

section \<open>extractImageUrl\<close>

text \<open>
  The test that the source repeats for each artifact list:
  \<^verbatim>\<open>Array.isArray(files) && files.length > 0 && files[0]?.file_url\<close>, returning
  \<^verbatim>\<open>files[0].file_url\<close>.
\<close>

fun file0 :: "jv \<Rightarrow> jv option" where
  "file0 (JArr xs) =
     (if length xs > 0 \<and> truthy (get (at0 xs) ''file_url'')
      then Some (get (at0 xs) ''file_url'') else None)"
| "file0 v = None"

text \<open>
  \<^verbatim>\<open>if (x?.module_outputs?.artifact_files) { const files = ...; if (...) return ... }\<close>
  for the value \<open>mo\<close> of \<^verbatim>\<open>x?.module_outputs\<close>.
\<close>

definition artifact_file_url :: "jv \<Rightarrow> jv option" where
  "artifact_file_url mo =
     (if truthy (get mo ''artifact_files'') then file0 (get mo ''artifact_files'') else None)"

text \<open>Path 1: \<^verbatim>\<open>module_outputs.artifact_files\<close> at top level.\<close>

definition path1 :: "jv \<Rightarrow> jv option" where
  "path1 result = artifact_file_url (get result ''module_outputs'')"

text \<open>The loop of path 2 over the values \<^verbatim>\<open>mo[key]\<close>.\<close>

fun scan_values :: "jv list \<Rightarrow> jv option" where
  "scan_values [] = None"
| "scan_values (JArr xs # vals) =
     (if length xs > 0 \<and> truthy (get (at0 xs) ''file_url'') then Some (get (at0 xs) ''file_url'')
      else if length xs > 0 \<and> truthy (get (at0 xs) ''url'') then Some (get (at0 xs) ''url'')
      else scan_values vals)"
| "scan_values (v # vals) = scan_values vals"

text \<open>Path 2: \<^verbatim>\<open>module_outputs\<close> at top level with other structures.\<close>

definition path2 :: "jv \<Rightarrow> jv option" where
  "path2 result =
     (let mo = get result ''module_outputs'' in
      if truthy mo then
        if truthy (get mo ''url'') then Some (get mo ''url'')
        else if truthy (get mo ''image_url'') then Some (get mo ''image_url'')
        else scan_values (own_values mo)
      else None)"

text \<open>\<^verbatim>\<open>v && typeof v === 'object'\<close>: objects and arrays (\<^verbatim>\<open>null\<close> is not truthy).\<close>

fun is_object :: "jv \<Rightarrow> bool" where
  "is_object (JObj kvs) = True"
| "is_object (JArr xs) = True"
| "is_object v = False"

text \<open>
  Path 3: \<^verbatim>\<open>response.result\<close>. The branch for \<^verbatim>\<open>r.artifact_files\<close> returns whenever that
  value is a non-empty array: element 0's \<^verbatim>\<open>file_url\<close>, else its \<^verbatim>\<open>url\<close>, else
  \<^verbatim>\<open>null\<close>.
\<close>

definition path3_on :: "jv \<Rightarrow> jv option" where
  "path3_on r =
     (if truthy (get r ''image_url'') then Some (get r ''image_url'')
      else if truthy (get r ''url'') then Some (get r ''url'')
      else if truthy (get r ''image'') then Some (get r ''image'')
      else if truthy (get r ''output_image'') then Some (get r ''output_image'')
      else if truthy (get r ''generated_image'') then Some (get r ''generated_image'')
      else if truthy (get r ''file_url'') then Some (get r ''file_url'')
      else
        (case get r ''artifact_files'' of
           JArr (x # xs) \<Rightarrow> Some (or_js (or_js (get x ''file_url'') (get x ''url'')) JNull)
         | _ \<Rightarrow> artifact_file_url (get r ''module_outputs'')))"

definition path3 :: "jv \<Rightarrow> jv option" where
  "path3 result =
     (let r = get (get result ''response'') ''result'' in
      if truthy r \<and> is_object r then path3_on r else None)"

text \<open>Path 4: URL patterns in \<^verbatim>\<open>response.message\<close>.\<close>

definition path4 :: "jv \<Rightarrow> jv option" where
  "path4 result =
     (case get (get result ''response'') ''message'' of
        JStr m \<Rightarrow> if m \<noteq> [] then map_option JStr (message_url_match m) else None
      | _ \<Rightarrow> None)"

text \<open>
  Path 5: \<^verbatim>\<open>raw_response\<close>. \<^verbatim>\<open>JSON.parse\<close> is a parameter: \<open>parse s = None\<close>
  when it throws. Nothing else in the \<^verbatim>\<open>try\<close> block can throw.
\<close>

definition path5 :: "(string \<Rightarrow> jv option) \<Rightarrow> jv \<Rightarrow> jv option" where
  "path5 parse result =
     (case get result ''raw_response'' of
        JStr s \<Rightarrow>
          if s \<noteq> [] then
            (case parse s of
               Some raw \<Rightarrow>
                 (case artifact_file_url (get raw ''module_outputs'') of
                    Some u \<Rightarrow> Some u
                  | None \<Rightarrow> artifact_file_url (get (get raw ''response'') ''module_outputs''))
             | None \<Rightarrow> map_option JStr (raw_url_match s))
          else None
      | _ \<Rightarrow> None)"

text \<open>
  The cascade: each path returns from the function as soon as it has a value. The
  parameter type of the source excludes \<^verbatim>\<open>null\<close> and \<^verbatim>\<open>undefined\<close> as the envelope
  itself, and the workflow reads \<^verbatim>\<open>result.success\<close> before it calls the function.
\<close>

definition extractImageUrl :: "(string \<Rightarrow> jv option) \<Rightarrow> jv \<Rightarrow> jv" where
  "extractImageUrl parse result =
     (case path1 result of Some v \<Rightarrow> v | None \<Rightarrow>
      (case path2 result of Some v \<Rightarrow> v | None \<Rightarrow>
      (case path3 result of Some v \<Rightarrow> v | None \<Rightarrow>
      (case path4 result of Some v \<Rightarrow> v | None \<Rightarrow>
      (case path5 parse result of Some v \<Rightarrow> v | None \<Rightarrow> JNull)))))"

section \<open>extractTransformationDetails\<close>

record details =
  transformation_description :: jv
  style_elements_applied :: jv
  color_palette_used :: jv

text \<open>
  \<^verbatim>\<open>typeof v === 'string' ? v : JSON.stringify(v)\<close>, with \<^verbatim>\<open>JSON.stringify\<close> a
  parameter (it returns a string, or \<^verbatim>\<open>undefined\<close> for \<^verbatim>\<open>undefined\<close>).
\<close>

fun as_text :: "(jv \<Rightarrow> jv) \<Rightarrow> jv \<Rightarrow> jv" where
  "as_text stringify (JStr s) = JStr s"
| "as_text stringify v = stringify v"

text \<open>The three \<^verbatim>\<open>||\<close> chains over the result mapping \<open>r\<close>.\<close>

definition desc_of :: "jv \<Rightarrow> jv" where
  "desc_of r =
     or_js (or_js (or_js (or_js (get r ''transformation_description'') (get r ''description''))
       (get r ''text'')) (get r ''message'')) (JStr [])"

definition styles_of :: "jv \<Rightarrow> jv" where
  "styles_of r =
     or_js (or_js (or_js (get r ''style_elements_applied'') (get r ''styles''))
       (get r ''elements'')) (JStr [])"

definition colors_of :: "jv \<Rightarrow> jv" where
  "colors_of r =
     or_js (or_js (or_js (get r ''color_palette_used'') (get r ''colors''))
       (get r ''palette'')) (JStr [])"

text \<open>The block guarded by \<^verbatim>\<open>agentResult && typeof agentResult === 'object'\<close>.\<close>

definition result_details :: "(jv \<Rightarrow> jv) \<Rightarrow> jv \<Rightarrow> details option" where
  "result_details stringify r =
     (if truthy (desc_of r) \<or> truthy (styles_of r) \<or> truthy (colors_of r) then
        Some \<lparr>transformation_description = as_text stringify (desc_of r),
              style_elements_applied = as_text stringify (styles_of r),
              color_palette_used = as_text stringify (colors_of r)\<rparr>
      else None)"

text \<open>The fallback on \<^verbatim>\<open>response.message\<close>.\<close>

definition message_details :: "jv \<Rightarrow> details option" where
  "message_details result =
     (if truthy (get (get result ''response'') ''message'') then
        Some \<lparr>transformation_description = get (get result ''response'') ''message'',
              style_elements_applied = JStr [],
              color_palette_used = JStr []\<rparr>
      else None)"

definition extractTransformationDetails :: "(jv \<Rightarrow> jv) \<Rightarrow> jv \<Rightarrow> details option" where
  "extractTransformationDetails stringify result =
     (let agentResult = get (get result ''response'') ''result'' in
      case (if truthy agentResult \<and> is_object agentResult
            then result_details stringify agentResult else None) of
        Some d \<Rightarrow> Some d
      | None \<Rightarrow> message_details result)"

section \<open>The transform workflow\<close>

text \<open>\<^verbatim>\<open>String.prototype.trim\<close>: white space and line terminators, the characters of \<^verbatim>\<open>\s\<close>.\<close>

definition is_space :: "char \<Rightarrow> bool" where
  "is_space c = (c \<in> set ws_chars)"

definition trim :: "string \<Rightarrow> string" where
  "trim s = rev (dropWhile is_space (rev (dropWhile is_space s)))"

definition AGENT_ID :: string where
  "AGENT_ID = ''699c802522d60b5dbc439726''"

definition BRAND_INSTRUCTION :: string where
  "BRAND_INSTRUCTION = ''Transform this uploaded image into Lyzr brand style using the company color palette (deep purples #7458e8, vibrant blues, electric accents) with clean gradients and modern tech-forward aesthetic.''"

text \<open>Step 2 of the handler: the outgoing message.\<close>

definition build_message :: "string \<Rightarrow> string" where
  "build_message styleNote =
     (if trim styleNote \<noteq> []
      then BRAND_INSTRUCTION @ '' Additional style direction: '' @ trim styleNote
      else BRAND_INSTRUCTION)"

text \<open>
  ToString, as applied by \<^verbatim>\<open>new Error(v)\<close> to its argument. A number is printed in
  decimal, which is what JavaScript prints for an integer of magnitude below \<^verbatim>\<open>1e21\<close>;
  from there on JavaScript prints an exponent form, which is outside this model.
\<close>

fun dec_nat :: "nat \<Rightarrow> string" where
  "dec_nat n =
     (if n < 10 then [char_of (48 + n)] else dec_nat (n div 10) @ [char_of (48 + n mod 10)])"

declare dec_nat.simps [simp del]

fun join_comma :: "string list \<Rightarrow> string" where
  "join_comma [] = []"
| "join_comma [x] = x"
| "join_comma (x # y # zs) = x @ '','' @ join_comma (y # zs)"

fun to_string_js :: "jv \<Rightarrow> string" where
  "to_string_js JUndefined = ''undefined''"
| "to_string_js JNull = ''null''"
| "to_string_js (JBool b) = (if b then ''true'' else ''false'')"
| "to_string_js (JNum n) = (if n < 0 then ''-'' @ dec_nat (nat (- n)) else dec_nat (nat n))"
| "to_string_js (JStr s) = s"
| "to_string_js (JArr xs) =
     join_comma (map (\<lambda>x. if x = JUndefined \<or> x = JNull then [] else to_string_js x) xs)"
| "to_string_js (JObj kvs) = ''[object Object]''"

text \<open>
  What a \<^verbatim>\<open>throw\<close> or a rejected promise carries: an \<^verbatim>\<open>Error\<close> made by the handler
  with its message, a TypeError of the engine (its message is the engine's own text), or
  a value that is not an \<^verbatim>\<open>Error\<close>.
\<close>

datatype thrown = Error string | TypeError | NonError

datatype err_text = Text string | TypeErrorText

text \<open>\<^verbatim>\<open>err instanceof Error ? err.message : 'Something went wrong. Please try again.'\<close>\<close>

fun error_text :: "thrown \<Rightarrow> err_text" where
  "error_text (Error m) = Text m"
| "error_text TypeError = TypeErrorText"
| "error_text NonError = Text ''Something went wrong. Please try again.''"

datatype 'a outcome = Resolved 'a | Rejected thrown

datatype 'f call = UploadFiles 'f | CallAIAgent string string "jv list"

text \<open>The state variables of the page that the handler writes.\<close>

record session =
  isTransforming :: bool
  error :: "err_text option"
  resultImageUrl :: jv
  transformationDetails :: "details option"
  statusMessage :: "string option"

text \<open>Step 4 of the handler in \<^verbatim>\<open>src/unnamed/part_000\<close>.\<close>

definition extract_step :: "(string \<Rightarrow> jv option) \<Rightarrow> jv \<Rightarrow> thrown + jv" where
  "extract_step parse result =
     (let imageUrl = extractImageUrl parse result in
      if truthy imageUrl then Inr imageUrl
      else Inl (Error ''No image was generated. Please try again.''))"

text \<open>
  Step 4 of the handler in \<^verbatim>\<open>src/app/page.tsx\<close>: \<^verbatim>\<open>artifactFiles[0].file_url\<close> is read
  without a guard, so a \<^verbatim>\<open>null\<close> element 0 throws a TypeError.
\<close>

definition extract_step_page :: "jv \<Rightarrow> thrown + jv" where
  "extract_step_page result =
     (case get (get result ''module_outputs'') ''artifact_files'' of
        JArr (x # xs) \<Rightarrow> if nullish x then Inl TypeError else Inr (get x ''file_url'')
      | _ \<Rightarrow> Inl (Error ''No image was generated. Please try again.''))"

text \<open>Step 5 of the handler in \<^verbatim>\<open>src/app/page.tsx\<close>.\<close>

definition details_step_page :: "jv \<Rightarrow> details option" where
  "details_step_page result =
     (let agentResult = get (get result ''response'') ''result'' in
      if truthy agentResult \<and> is_object agentResult then
        Some \<lparr>transformation_description =
                or_js (get agentResult ''transformation_description'') (JStr []),
              style_elements_applied =
                or_js (get agentResult ''style_elements_applied'') (JStr []),
              color_palette_used =
                or_js (get agentResult ''color_palette_used'') (JStr [])\<rparr>
      else None)"

text \<open>
  The body of the \<^verbatim>\<open>try\<close> block, for the two variants of steps 4 and 5 given as
  \<open>step4\<close> and \<open>step5\<close>. It returns the state, the collaborator calls made, in order,
  and what was thrown, if anything.
\<close>

definition upload_error :: "jv \<Rightarrow> thrown" where
  "upload_error uploadResult =
     Error (to_string_js (or_js (get uploadResult ''error'') (JStr ''Failed to upload image'')))"

definition agent_error :: "jv \<Rightarrow> thrown" where
  "agent_error result =
     Error (to_string_js (or_js (or_js (get result ''error'') (get (get result ''response'') ''message''))
       (JStr ''Transformation failed'')))"

definition after_agent ::
  "(jv \<Rightarrow> thrown + jv) \<Rightarrow> (jv \<Rightarrow> details option) \<Rightarrow> jv \<Rightarrow> session \<Rightarrow> session \<times> thrown option" where
  "after_agent step4 step5 result st =
     (if nullish result then (st, Some TypeError)
      else if \<not> truthy (get result ''success'') then (st, Some (agent_error result))
      else
        (case step4 result of
           Inl e \<Rightarrow> (st, Some e)
         | Inr imageUrl \<Rightarrow>
             (let st1 = st\<lparr>resultImageUrl := imageUrl\<rparr>;
                  st2 = (case step5 result of
                           Some d \<Rightarrow> st1\<lparr>transformationDetails := Some d\<rparr>
                         | None \<Rightarrow> st1)
              in (st2\<lparr>statusMessage := None\<rparr>, None))))"

definition try_transform ::
  "(jv \<Rightarrow> thrown + jv) \<Rightarrow> (jv \<Rightarrow> details option) \<Rightarrow>
   ('f \<Rightarrow> jv outcome) \<Rightarrow> (string \<Rightarrow> string \<Rightarrow> jv list \<Rightarrow> jv outcome) \<Rightarrow>
   'f \<Rightarrow> string \<Rightarrow> session \<Rightarrow> session \<times> 'f call list \<times> thrown option" where
  "try_transform step4 step5 uploadFiles callAIAgent selectedFile styleNote st =
     (case uploadFiles selectedFile of
        Rejected e \<Rightarrow> (st, [UploadFiles selectedFile], Some e)
      | Resolved uploadResult \<Rightarrow>
          if nullish uploadResult then (st, [UploadFiles selectedFile], Some TypeError)
          else if \<not> truthy (get uploadResult ''success'')
          then (st, [UploadFiles selectedFile], Some (upload_error uploadResult))
          else
            (case get uploadResult ''asset_ids'' of
               JArr (assetId # ids) \<Rightarrow>
                 (let st1 = st\<lparr>statusMessage := Some ''Transforming with AI...''\<rparr>;
                      message = build_message styleNote;
                      calls = [UploadFiles selectedFile, CallAIAgent message AGENT_ID [assetId]]
                  in case callAIAgent message AGENT_ID [assetId] of
                       Rejected e \<Rightarrow> (st1, calls, Some e)
                     | Resolved result \<Rightarrow>
                         (case after_agent step4 step5 result st1 of
                            (st2, t) \<Rightarrow> (st2, calls, t)))
             | _ \<Rightarrow> (st, [UploadFiles selectedFile], Some (upload_error uploadResult))))"

text \<open>
  The handler: the guard on the selected file, the resets, the \<^verbatim>\<open>try\<close> block, the
  \<^verbatim>\<open>catch\<close> and the \<^verbatim>\<open>finally\<close>. The two awaits run one after the other, so the
  handler is a function of what the collaborators return.
\<close>

definition run_handler ::
  "(jv \<Rightarrow> thrown + jv) \<Rightarrow> (jv \<Rightarrow> details option) \<Rightarrow>
   ('f \<Rightarrow> jv outcome) \<Rightarrow> (string \<Rightarrow> string \<Rightarrow> jv list \<Rightarrow> jv outcome) \<Rightarrow>
   'f option \<Rightarrow> string \<Rightarrow> session \<Rightarrow> session \<times> 'f call list" where
  "run_handler step4 step5 uploadFiles callAIAgent selectedFile styleNote st =
     (case selectedFile of
        None \<Rightarrow> (st, [])
      | Some file \<Rightarrow>
          (case try_transform step4 step5 uploadFiles callAIAgent file styleNote
                  (st\<lparr>isTransforming := True, error := None, resultImageUrl := JNull,
                      transformationDetails := None,
                      statusMessage := Some ''Uploading image...''\<rparr>) of
             (st1, calls, None) \<Rightarrow> (st1\<lparr>isTransforming := False\<rparr>, calls)
           | (st1, calls, Some err) \<Rightarrow>
               (st1\<lparr>error := Some (error_text err), statusMessage := None,
                    isTransforming := False\<rparr>, calls)))"

text \<open>\<^verbatim>\<open>handleTransform\<close> of \<^verbatim>\<open>src/unnamed/part_000\<close>.\<close>

definition handleTransform ::
  "(string \<Rightarrow> jv option) \<Rightarrow> (jv \<Rightarrow> jv) \<Rightarrow>
   ('f \<Rightarrow> jv outcome) \<Rightarrow> (string \<Rightarrow> string \<Rightarrow> jv list \<Rightarrow> jv outcome) \<Rightarrow>
   'f option \<Rightarrow> string \<Rightarrow> session \<Rightarrow> session \<times> 'f call list" where
  "handleTransform parse stringify =
     run_handler (extract_step parse) (extractTransformationDetails stringify)"

text \<open>\<^verbatim>\<open>handleTransform\<close> of \<^verbatim>\<open>src/app/page.tsx\<close>.\<close>

definition handleTransform_page ::
  "('f \<Rightarrow> jv outcome) \<Rightarrow> (string \<Rightarrow> string \<Rightarrow> jv list \<Rightarrow> jv outcome) \<Rightarrow>
   'f option \<Rightarrow> string \<Rightarrow> session \<Rightarrow> session \<times> 'f call list" where
  "handleTransform_page = run_handler extract_step_page details_step_page"

section \<open>The language of a regular expression\<close>

text \<open>
  What a pattern matches, independently of the order in which the matcher tries the
  alternatives: the set of the texts that the pattern matches as a whole.
\<close>

fun lang :: "bool \<Rightarrow> rx \<Rightarrow> string set" where
  "lang ic Eps = {[]}"
| "lang ic Never = {}"
| "lang ic (Atom a) = {[c] | c. atom_ok ic a c}"
| "lang ic (Seq r1 r2) = {u @ v | u v. u \<in> lang ic r1 \<and> v \<in> lang ic r2}"
| "lang ic (Alt r1 r2) = lang ic r1 \<union> lang ic r2"
| "lang ic (Opt r) = insert [] (lang ic r)"
| "lang ic (Plus a) = {cs. cs \<noteq> [] \<and> (\<forall>c \<in> set cs. atom_ok ic a c)}"

text \<open>
  An HTTP(S) URL ending in one of the extensions, letters compared without regard to
  case: a scheme \<^verbatim>\<open>http\<close> or \<^verbatim>\<open>https\<close>, \<^verbatim>\<open>://\<close>, one or more characters none of which is
  excluded, a dot, an extension.
\<close>

definition is_image_url :: "char list \<Rightarrow> string list \<Rightarrow> string \<Rightarrow> bool" where
  "is_image_url excl exts u =
     (\<exists>scheme body ext.
        u = scheme @ ''://'' @ body @ ''.'' @ ext
        \<and> (map canon scheme = ''HTTP'' \<or> map canon scheme = ''HTTPS'')
        \<and> body \<noteq> [] \<and> (\<forall>c \<in> set body. canon c \<notin> canon ` set excl)
        \<and> (\<exists>e \<in> set exts. map canon ext = map canon e))"

text \<open>\<open>u\<close> is a part of \<open>s\<close> that satisfies \<open>P\<close>, and no such part starts before it.\<close>

definition leftmost_match :: "(string \<Rightarrow> bool) \<Rightarrow> string \<Rightarrow> string \<Rightarrow> bool" where
  "leftmost_match P s u =
     (\<exists>pre post. s = pre @ u @ post \<and> P u
        \<and> (\<forall>pre' u' post'. s = pre' @ u' @ post' \<and> P u' \<longrightarrow> length pre \<le> length pre'))"

text \<open>
  \<open>u\<close> is the first match of \<open>P\<close> in \<open>s\<close>: a part of \<open>s\<close> that satisfies \<open>P\<close>, such that
  every other such part starts later, or starts at the same place and is no longer.
\<close>

definition first_match :: "(string \<Rightarrow> bool) \<Rightarrow> string \<Rightarrow> string \<Rightarrow> bool" where
  "first_match P s u =
     (\<exists>pre post. s = pre @ u @ post \<and> P u
        \<and> (\<forall>pre' u' post'. s = pre' @ u' @ post' \<and> P u' \<longrightarrow>
              length pre < length pre' \<or> (length pre = length pre' \<and> length u' \<le> length u)))"

text \<open>
  Notions for the order in which the matcher returns the remainders: a list of remainders
  in ascending length (the longest match first); extensions none of which is, up to case,
  the beginning of another; extensions whose lengths are \<open>n\<close> or \<open>n + 1\<close>; and a literal
  that matches at the beginning of a text.
\<close>

definition asc :: "string list \<Rightarrow> bool" where
  "asc L = sorted_wrt (\<lambda>a b. length a \<le> length b) L"

definition clash :: "string \<Rightarrow> string \<Rightarrow> bool" where
  "clash e f =
     (take (min (length e) (length f)) (map canon e) = take (min (length e) (length f)) (map canon f))"

fun prefix_free :: "string list \<Rightarrow> bool" where
  "prefix_free [] = True"
| "prefix_free (e # es) = (list_all (\<lambda>f. \<not> clash e f) es \<and> prefix_free es)"

definition ext_widths :: "nat \<Rightarrow> string list \<Rightarrow> bool" where
  "ext_widths n E = list_all (\<lambda>e. n \<le> length e \<and> length e \<le> Suc n) E"

definition matches_at :: "string \<Rightarrow> string \<Rightarrow> bool" where
  "matches_at e t = (length e \<le> length t \<and> map canon (take (length e) t) = map canon e)"

section \<open>The strategies in the words of the specification\<close>

definition result_keys :: "string list" where
  "result_keys = [''image_url'', ''url'', ''image'', ''output_image'', ''generated_image'', ''file_url'']"

text \<open>
  Strategy 3 in the words of the specification, with "present" read as "truthy": the
  first truthy of the six keys in their order; failing those, element 0's \<^verbatim>\<open>file_url\<close>, else its
  \<^verbatim>\<open>url\<close>, when \<^verbatim>\<open>result.artifact_files\<close> is a non-empty sequence; and when it is not,
  \<^verbatim>\<open>result.module_outputs.artifact_files[0].file_url\<close>. Nothing is said of a non-empty
  \<^verbatim>\<open>artifact_files\<close> whose element 0 has neither field.
\<close>

definition result_strategy :: "jv \<Rightarrow> jv option" where
  "result_strategy r =
     (case find truthy (map (get r) result_keys) of
        Some v \<Rightarrow> Some v
      | None \<Rightarrow>
          (case get r ''artifact_files'' of
             JArr (x # xs) \<Rightarrow> find truthy [get x ''file_url'', get x ''url'']
           | _ \<Rightarrow> artifact_file_url (get r ''module_outputs'')))"

text \<open>
  \<^verbatim>\<open>v.module_outputs.artifact_files[0].file_url\<close> in the sense of the specification:
  the \<^verbatim>\<open>file_url\<close> of element 0, and of no other element, when \<^verbatim>\<open>artifact_files\<close> is a
  non-empty sequence and that \<^verbatim>\<open>file_url\<close> is truthy.
\<close>

definition element0_file_url :: "jv \<Rightarrow> jv option" where
  "element0_file_url v =
     (case get (get v ''module_outputs'') ''artifact_files'' of
        JArr (x # xs) \<Rightarrow> if truthy (get x ''file_url'') then Some (get x ''file_url'') else None
      | _ \<Rightarrow> None)"

text \<open>
  The first truthy of the candidate keys of the mapping \<open>r\<close>, in their order, and the
  empty string when there is none.
\<close>

definition first_truthy :: "jv \<Rightarrow> string list \<Rightarrow> jv" where
  "first_truthy r ks = (case find truthy (map (get r) ks) of Some v \<Rightarrow> v | None \<Rightarrow> JStr [])"

section \<open>Instances of the built-in functions for the examples\<close>

text \<open>
  \<^verbatim>\<open>JSON.stringify\<close> on the values of this model (objects with distinct keys, numbers
  of magnitude below \<^verbatim>\<open>1e21\<close>, which print in decimal): \<^verbatim>\<open>undefined\<close> is \<^verbatim>\<open>null\<close>
  inside an array and omitted from an object, and at top level the result is
  \<^verbatim>\<open>undefined\<close>.
\<close>

definition hex_digit :: "nat \<Rightarrow> char" where
  "hex_digit n = (if n < 10 then char_of (48 + n) else char_of (87 + n))"

definition esc_char :: "char \<Rightarrow> string" where
  "esc_char c =
     (if c = CHR 0x22 then [CHR 0x5C, CHR 0x22]
      else if c = CHR 0x5C then [CHR 0x5C, CHR 0x5C]
      else if c = CHR 0x08 then [CHR 0x5C, CHR ''b'']
      else if c = CHR 0x0C then [CHR 0x5C, CHR ''f'']
      else if c = CHR 0x0A then [CHR 0x5C, CHR ''n'']
      else if c = CHR 0x0D then [CHR 0x5C, CHR ''r'']
      else if c = CHR 0x09 then [CHR 0x5C, CHR ''t'']
      else if (of_char c :: nat) < 32
      then [CHR 0x5C] @ ''u00'' @ [hex_digit (of_char c div 16), hex_digit (of_char c mod 16)]
      else [c])"

definition quote_json :: "string \<Rightarrow> string" where
  "quote_json s = [CHR 0x22] @ concat (map esc_char s) @ [CHR 0x22]"

fun stringify_text :: "jv \<Rightarrow> string"
  and stringify_elems :: "jv list \<Rightarrow> string list"
  and stringify_props :: "(string \<times> jv) list \<Rightarrow> string list" where
  "stringify_text JUndefined = ''null''"
| "stringify_text JNull = ''null''"
| "stringify_text (JBool b) = (if b then ''true'' else ''false'')"
| "stringify_text (JNum n) = (if n < 0 then ''-'' @ dec_nat (nat (- n)) else dec_nat (nat n))"
| "stringify_text (JStr s) = quote_json s"
| "stringify_text (JArr xs) = ''['' @ join_comma (stringify_elems xs) @ '']''"
| "stringify_text (JObj kvs) = ''{'' @ join_comma (stringify_props kvs) @ ''}''"
| "stringify_elems [] = []"
| "stringify_elems (x # xs) = stringify_text x # stringify_elems xs"
| "stringify_props [] = []"
| "stringify_props ((k, v) # kvs) =
     (if v = JUndefined then stringify_props kvs
      else (quote_json k @ '':'' @ stringify_text v) # stringify_props kvs)"

definition json_stringify :: "jv \<Rightarrow> jv" where
  "json_stringify v = (if v = JUndefined then JUndefined else JStr (stringify_text v))"

text \<open>
  \<^verbatim>\<open>JSON.parse\<close> on a text that is not JSON: it throws. The examples that use it
  carry no \<^verbatim>\<open>raw_response\<close>, or one that is not JSON.
\<close>

definition parse_throws :: "string \<Rightarrow> jv option" where
  "parse_throws s = None"

section \<open>Example envelopes\<close>

definition env_priority :: jv where
  "env_priority =
     JObj [(''success'', JBool True),
           (''module_outputs'',
              JObj [(''artifact_files'', JArr [JObj [(''file_url'', JStr ''https://a.example/1.png'')]]),
                    (''url'', JStr ''https://b.example/2.png'')]),
           (''response'',
              JObj [(''result'', JObj [(''image_url'', JStr ''https://c.example/3.png'')]),
                    (''message'', JStr ''see https://d.example/4.png here'')])]"

definition env_empty_file_url :: jv where
  "env_empty_file_url =
     JObj [(''success'', JBool True),
           (''module_outputs'',
              JObj [(''artifact_files'', JArr [JObj [(''file_url'', JStr [])]]),
                    (''url'', JStr ''https://b.example/2.png'')])]"

definition env_url_only :: jv where
  "env_url_only =
     JObj [(''success'', JBool True),
           (''module_outputs'', JObj [(''url'', JStr ''https://b.example/2.png'')])]"

definition env_result_image_url :: jv where
  "env_result_image_url =
     JObj [(''success'', JBool True),
           (''module_outputs'', JObj [(''artifact_files'', JArr [])]),
           (''response'', JObj [(''result'', JObj [(''image_url'', JStr ''X'')])])]"

definition env_result_empty_image_url :: jv where
  "env_result_empty_image_url =
     JObj [(''success'', JBool True),
           (''module_outputs'', JObj [(''artifact_files'', JArr [])]),
           (''response'',
              JObj [(''result'', JObj [(''image_url'', JStr []),
                                      (''url'', JStr ''https://b.example/2.png'')])])]"

definition env_message_only :: jv where
  "env_message_only =
     JObj [(''success'', JBool True),
           (''response'', JObj [(''message'', JStr ''see https://x.com/a.png here'')])]"

definition env_artifact_without_url :: jv where
  "env_artifact_without_url =
     JObj [(''success'', JBool True),
           (''response'',
              JObj [(''result'', JObj [(''artifact_files'', JArr [JObj [(''name'', JStr ''a.png'')]])]),
                    (''message'', JStr ''see https://x.com/a.png here'')])]"

definition raw_backslash :: string where
  "raw_backslash = ''result: https://x.com/a?x=1'' @ [CHR 0x5C] @ ''u0026f=b.png''"

definition env_raw_backslash :: jv where
  "env_raw_backslash = JObj [(''success'', JBool True), (''raw_response'', JStr raw_backslash)]"

definition svg_then_png :: string where
  "svg_then_png = ''image at https://x.com/b.svg and https://x.com/a.png''"

definition env_raw_text :: jv where
  "env_raw_text = JObj [(''success'', JBool True), (''raw_response'', JStr svg_then_png)]"

text \<open>\<^verbatim>\<open>JSON.parse\<close> restricted to two JSON texts and the texts that are not JSON.\<close>

definition raw_json :: string where
  \<open>raw_json = ''{"module_outputs":{"artifact_files":[{"file_url":""},{"file_url":"https://x.com/second.png"}]},"response":{"module_outputs":{"artifact_files":[{"file_url":"https://x.com/r.png"}]}}}''\<close>

definition raw_json_url :: string where
  \<open>raw_json_url = ''{"url":"https://x.com/u.png"}''\<close>

definition parsed_json :: jv where
  "parsed_json =
     JObj [(''module_outputs'',
              JObj [(''artifact_files'',
                 JArr [JObj [(''file_url'', JStr [])],
                       JObj [(''file_url'', JStr ''https://x.com/second.png'')]])]),
           (''response'',
              JObj [(''module_outputs'',
                 JObj [(''artifact_files'', JArr [JObj [(''file_url'', JStr ''https://x.com/r.png'')]])])])]"

definition parse_sample :: "string \<Rightarrow> jv option" where
  "parse_sample s =
     (if s = raw_json then Some parsed_json
      else if s = raw_json_url then Some (JObj [(''url'', JStr ''https://x.com/u.png'')])
      else None)"

definition env_raw_json :: jv where
  "env_raw_json = JObj [(''success'', JBool True), (''raw_response'', JStr raw_json)]"

definition env_raw_json_url :: jv where
  "env_raw_json_url = JObj [(''success'', JBool True), (''raw_response'', JStr raw_json_url)]"

definition env_nothing :: jv where
  "env_nothing = JObj [(''success'', JBool True)]"

definition env_styles :: jv where
  "env_styles = JObj [(''response'', JObj [(''result'', JObj [(''styles'', JStr ''a, b'')])])]"

definition env_styles_list :: jv where
  "env_styles_list =
     JObj [(''response'',
        JObj [(''result'', JObj [(''styles'', JArr [JStr ''a'', JStr ''b'']), (''colors'', JNum 0)])])]"

definition env_empty_description :: jv where
  "env_empty_description =
     JObj [(''response'',
        JObj [(''result'', JObj [(''transformation_description'', JStr []),
                                (''description'', JStr ''d'')])])]"

definition env_message_fallback :: jv where
  "env_message_fallback =
     JObj [(''response'', JObj [(''result'', JObj []), (''message'', JStr ''done'')])]"

definition env_empty_message :: jv where
  "env_empty_message = JObj [(''response'', JObj [(''message'', JStr [])])]"

text \<open>Collaborators and a session state for the examples; a file is named by a string.\<close>

definition upload_empty :: "string \<Rightarrow> jv outcome" where
  "upload_empty f = Resolved (JObj [(''success'', JBool True), (''asset_ids'', JArr [])])"

definition upload_malformed :: "string \<Rightarrow> jv outcome" where
  "upload_malformed f =
     Resolved (JObj [(''success'', JBool True), (''asset_ids'', JStr ''asset-1''),
                     (''error'', JStr ''quota exceeded'')])"

definition upload_ok :: "string \<Rightarrow> jv outcome" where
  "upload_ok f = Resolved (JObj [(''success'', JBool True), (''asset_ids'', JArr [JStr ''asset-1''])])"

definition agent_ok :: "string \<Rightarrow> string \<Rightarrow> jv list \<Rightarrow> jv outcome" where
  "agent_ok message agentId assets = Resolved env_priority"

definition agent_nothing :: "string \<Rightarrow> string \<Rightarrow> jv list \<Rightarrow> jv outcome" where
  "agent_nothing message agentId assets = Resolved env_nothing"

definition agent_url_only :: "string \<Rightarrow> string \<Rightarrow> jv list \<Rightarrow> jv outcome" where
  "agent_url_only message agentId assets = Resolved env_url_only"

definition idle :: session where
  "idle = \<lparr>isTransforming = False, error = None, resultImageUrl = JNull,
            transformationDetails = None, statusMessage = None\<rparr>"

definition blank_note :: string where
  "blank_note = [CHR 0x20, CHR 0x09, CHR 0x20]"

section \<open>Properties of extractImageUrl\<close>

lemma path1_hit:
  "get (get env ''module_outputs'') ''artifact_files'' = JArr (x # xs) \<Longrightarrow>
   truthy (get x ''file_url'') \<Longrightarrow> path1 env = Some (get x ''file_url'')"
  by (simp add: path1_def artifact_file_url_def)

text \<open>
  C1 (as amended): when \<^verbatim>\<open>module_outputs.artifact_files\<close> is a non-empty array whose
  element 0 has a truthy (for a string: non-empty) \<^verbatim>\<open>file_url\<close>, \<^verbatim>\<open>extractImageUrl\<close>
  returns exactly that \<^verbatim>\<open>file_url\<close>, whatever the rest of the envelope holds.
\<close>

theorem C1_artifact_file_url_first:
  assumes "get (get env ''module_outputs'') ''artifact_files'' = JArr (x # xs)"
    and "truthy (get x ''file_url'')"
  shows "extractImageUrl parse env = get x ''file_url''"
  using assms by (simp add: extractImageUrl_def path1_hit)

theorem C1_witness:
  "get (get env_priority ''module_outputs'') ''artifact_files''
     = JArr (JObj [(''file_url'', JStr ''https://a.example/1.png'')] # [])
   \<and> truthy (get (JObj [(''file_url'', JStr ''https://a.example/1.png'')]) ''file_url'')
   \<and> extractImageUrl parse_throws env_priority = JStr ''https://a.example/1.png''"
proof -
  have a: "get (get env_priority ''module_outputs'') ''artifact_files''
     = JArr (JObj [(''file_url'', JStr ''https://a.example/1.png'')] # [])"
    by (simp add: env_priority_def)
  have t: "truthy (get (JObj [(''file_url'', JStr ''https://a.example/1.png'')]) ''file_url'')"
    by simp
  from C1_artifact_file_url_first [OF a t, of parse_throws] a t show ?thesis by simp
qed

text \<open>
  C1 as stated fails: element 0 carries the \<^verbatim>\<open>file_url\<close> \<^verbatim>\<open>""\<close>, and the function
  returns the \<^verbatim>\<open>url\<close> field of \<^verbatim>\<open>module_outputs\<close> instead.
\<close>

theorem C1_counterexample:
  "get (get env_empty_file_url ''module_outputs'') ''artifact_files''
     = JArr [JObj [(''file_url'', JStr [])]]
   \<and> get (JObj [(''file_url'', JStr [])]) ''file_url'' = JStr []
   \<and> extractImageUrl parse_throws env_empty_file_url = JStr ''https://b.example/2.png''"
  by (simp add: env_empty_file_url_def extractImageUrl_def path1_def path2_def
      artifact_file_url_def)

section \<open>The two variants of the extraction step\<close>

lemma truthy_not_nullish: "truthy (get u k) \<Longrightarrow> \<not> nullish u"
  by (auto simp: nullish_def)

lemma not_nonempty_array:
  "\<not> nonempty_array v \<Longrightarrow>
   (case v of JArr (a # ids) \<Rightarrow> f a ids | _ \<Rightarrow> g) = g"
  by (cases v) (auto split: list.splits)

lemma run_handler_published:
  assumes "uploadFiles file = Resolved u" and "truthy (get u ''success'')"
    and "get u ''asset_ids'' = JArr (a # ids)"
    and "callAIAgent (build_message styleNote) AGENT_ID [a] = Resolved result"
    and "truthy (get result ''success'')"
    and "step4 result = Inr v"
  shows "resultImageUrl (fst (run_handler step4 step5 uploadFiles callAIAgent (Some file) styleNote st)) = v
    \<and> error (fst (run_handler step4 step5 uploadFiles callAIAgent (Some file) styleNote st)) = None"
  using assms truthy_not_nullish [OF assms(2)] truthy_not_nullish [OF assms(5)]
  by (simp add: run_handler_def try_transform_def after_agent_def Let_def split: option.splits)

lemma steps_agree_on_artifact:
  assumes a: "get (get result ''module_outputs'') ''artifact_files'' = JArr (x # xs)"
    and t: "truthy (get x ''file_url'')"
  shows "extract_step_page result = Inr (get x ''file_url'')"
    and "extract_step parse result = Inr (get x ''file_url'')"
proof -
  have "\<not> nullish x" using t by (auto simp: nullish_def)
  then show "extract_step_page result = Inr (get x ''file_url'')"
    using a by (simp add: extract_step_page_def)
  have "extractImageUrl parse result = get x ''file_url''"
    using a t by (simp add: extractImageUrl_def path1_hit)
  then show "extract_step parse result = Inr (get x ''file_url'')"
    using t by (simp add: extract_step_def)
qed

lemma run_handler_step4_failed:
  assumes "uploadFiles file = Resolved u" and "truthy (get u ''success'')"
    and "get u ''asset_ids'' = JArr (a # ids)"
    and "callAIAgent (build_message styleNote) AGENT_ID [a] = Resolved result"
    and "truthy (get result ''success'')"
    and "step4 result = Inl e"
  shows "run_handler step4 step5 uploadFiles callAIAgent (Some file) styleNote st =
     (st\<lparr>isTransforming := False, error := Some (error_text e), resultImageUrl := JNull,
         transformationDetails := None, statusMessage := None\<rparr>,
      [UploadFiles file, CallAIAgent (build_message styleNote) AGENT_ID [a]])"
  using assms truthy_not_nullish [OF assms(2)] truthy_not_nullish [OF assms(5)]
  by (simp add: run_handler_def try_transform_def after_agent_def Let_def)

lemma steps_without_artifact:
  assumes "\<not> nonempty_array (get (get result ''module_outputs'') ''artifact_files'')"
  shows "extract_step_page result = Inl (Error ''No image was generated. Please try again.'')"
    and "\<not> truthy (extractImageUrl parse result) \<Longrightarrow>
      extract_step parse result = Inl (Error ''No image was generated. Please try again.'')"
    and "truthy (extractImageUrl parse result) \<Longrightarrow>
      extract_step parse result = Inr (extractImageUrl parse result)"
proof -
  show "extract_step_page result = Inl (Error ''No image was generated. Please try again.'')"
    using assms by (simp add: extract_step_page_def not_nonempty_array)
qed (simp_all add: extract_step_def)

text \<open>
  C2 (as amended): for every agent response envelope with a true success flag: when
  \<^verbatim>\<open>module_outputs.artifact_files\<close> is a non-empty array whose element 0 has a truthy
  \<^verbatim>\<open>file_url\<close>, the extraction steps of \<^verbatim>\<open>src/app/page.tsx\<close> and of
  \<^verbatim>\<open>src/unnamed/part_000\<close> publish the same reference, that \<^verbatim>\<open>file_url\<close>, and neither
  fails; when \<^verbatim>\<open>module_outputs.artifact_files\<close> is not a non-empty array and
  \<^verbatim>\<open>extractImageUrl\<close> finds nothing, both fail with the "No image was generated" error;
  when it is not a non-empty array and \<^verbatim>\<open>extractImageUrl\<close> finds an image by another
  strategy, the step of \<^verbatim>\<open>page.tsx\<close> fails with that error and the step of \<^verbatim>\<open>part_000\<close>
  publishes the image; every truthy reference that the step of \<^verbatim>\<open>page.tsx\<close> publishes is
  published by the step of \<^verbatim>\<open>part_000\<close> too; and in the two cases of agreement the runs
  of the two workflows, after a successful upload and agent call, end with the same
  result image and the same error.
\<close>

theorem C2_steps_agree_on_artifact:
  "(get (get result ''module_outputs'') ''artifact_files'' = JArr (x # xs)
     \<and> truthy (get x ''file_url'')
     \<longrightarrow> extract_step_page result = Inr (get x ''file_url'')
       \<and> extract_step parse result = Inr (get x ''file_url''))
   \<and> (\<not> nonempty_array (get (get result ''module_outputs'') ''artifact_files'')
       \<and> \<not> truthy (extractImageUrl parse result)
     \<longrightarrow> extract_step_page result = Inl (Error ''No image was generated. Please try again.'')
       \<and> extract_step parse result = Inl (Error ''No image was generated. Please try again.''))
   \<and> (\<not> nonempty_array (get (get result ''module_outputs'') ''artifact_files'')
       \<and> truthy (extractImageUrl parse result)
     \<longrightarrow> extract_step_page result = Inl (Error ''No image was generated. Please try again.'')
       \<and> extract_step parse result = Inr (extractImageUrl parse result))
   \<and> (extract_step_page result = Inr v \<and> truthy v \<longrightarrow> extract_step parse result = Inr v)
   \<and> (uploadFiles file = Resolved u \<and> truthy (get u ''success'')
       \<and> get u ''asset_ids'' = JArr (a # ids)
       \<and> callAIAgent (build_message styleNote) AGENT_ID [a] = Resolved result
       \<and> truthy (get result ''success'')
       \<and> get (get result ''module_outputs'') ''artifact_files'' = JArr (x # xs)
       \<and> truthy (get x ''file_url'')
     \<longrightarrow> resultImageUrl (fst (handleTransform_page uploadFiles callAIAgent (Some file) styleNote st))
           = get x ''file_url''
       \<and> error (fst (handleTransform_page uploadFiles callAIAgent (Some file) styleNote st)) = None
       \<and> resultImageUrl
           (fst (handleTransform parse stringify uploadFiles callAIAgent (Some file) styleNote st))
           = get x ''file_url''
       \<and> error (fst (handleTransform parse stringify uploadFiles callAIAgent (Some file) styleNote st))
           = None)
   \<and> (uploadFiles file = Resolved u \<and> truthy (get u ''success'')
       \<and> get u ''asset_ids'' = JArr (a # ids)
       \<and> callAIAgent (build_message styleNote) AGENT_ID [a] = Resolved result
       \<and> truthy (get result ''success'')
       \<and> \<not> nonempty_array (get (get result ''module_outputs'') ''artifact_files'')
       \<and> \<not> truthy (extractImageUrl parse result)
     \<longrightarrow> handleTransform_page uploadFiles callAIAgent (Some file) styleNote st
           = handleTransform parse stringify uploadFiles callAIAgent (Some file) styleNote st
       \<and> handleTransform parse stringify uploadFiles callAIAgent (Some file) styleNote st
           = (st\<lparr>isTransforming := False,
                 error := Some (Text ''No image was generated. Please try again.''),
                 resultImageUrl := JNull, transformationDetails := None,
                 statusMessage := None\<rparr>,
              [UploadFiles file, CallAIAgent (build_message styleNote) AGENT_ID [a]]))"
proof -
  have 1: "extract_step_page result = Inr (get x ''file_url'')
       \<and> extract_step parse result = Inr (get x ''file_url'')"
    if "get (get result ''module_outputs'') ''artifact_files'' = JArr (x # xs)
     \<and> truthy (get x ''file_url'')"
    using that steps_agree_on_artifact(1) [of result x xs]
      steps_agree_on_artifact(2) [of result x xs parse] by simp
  have 2: "extract_step_page result = Inl (Error ''No image was generated. Please try again.'')
       \<and> extract_step parse result = Inl (Error ''No image was generated. Please try again.'')"
    if "\<not> nonempty_array (get (get result ''module_outputs'') ''artifact_files'')
       \<and> \<not> truthy (extractImageUrl parse result)"
    using that steps_without_artifact(1) [of result]
      steps_without_artifact(2) [of result parse] by simp
  have 3: "extract_step_page result = Inl (Error ''No image was generated. Please try again.'')
       \<and> extract_step parse result = Inr (extractImageUrl parse result)"
    if "\<not> nonempty_array (get (get result ''module_outputs'') ''artifact_files'')
       \<and> truthy (extractImageUrl parse result)"
    using that steps_without_artifact(1) [of result]
      steps_without_artifact(3) [of result parse] by simp
  have 4: "extract_step parse result = Inr v" if p: "extract_step_page result = Inr v \<and> truthy v"
  proof -
    from p obtain y ys where a: "get (get result ''module_outputs'') ''artifact_files'' = JArr (y # ys)"
      and v: "v = get y ''file_url''"
      by (auto simp: extract_step_page_def split: jv.splits list.splits if_splits)
    from p v have "truthy (get y ''file_url'')" by simp
    from steps_agree_on_artifact(2) [OF a this] v show ?thesis by simp
  qed
  have 5: "resultImageUrl (fst (handleTransform_page uploadFiles callAIAgent (Some file) styleNote st))
           = get x ''file_url''
       \<and> error (fst (handleTransform_page uploadFiles callAIAgent (Some file) styleNote st)) = None
       \<and> resultImageUrl
           (fst (handleTransform parse stringify uploadFiles callAIAgent (Some file) styleNote st))
           = get x ''file_url''
       \<and> error (fst (handleTransform parse stringify uploadFiles callAIAgent (Some file) styleNote st))
           = None"
    if h: "uploadFiles file = Resolved u \<and> truthy (get u ''success'')
       \<and> get u ''asset_ids'' = JArr (a # ids)
       \<and> callAIAgent (build_message styleNote) AGENT_ID [a] = Resolved result
       \<and> truthy (get result ''success'')
       \<and> get (get result ''module_outputs'') ''artifact_files'' = JArr (x # xs)
       \<and> truthy (get x ''file_url'')"
  proof -
    from h have s: "extract_step_page result = Inr (get x ''file_url'')"
      "extract_step parse result = Inr (get x ''file_url'')"
      using steps_agree_on_artifact(1) [of result x xs]
        steps_agree_on_artifact(2) [of result x xs parse] by simp_all
    from h have c: "uploadFiles file = Resolved u" "truthy (get u ''success'')"
      "get u ''asset_ids'' = JArr (a # ids)"
      "callAIAgent (build_message styleNote) AGENT_ID [a] = Resolved result"
      "truthy (get result ''success'')"
      by simp_all
    from run_handler_published [of uploadFiles "file" u a ids callAIAgent styleNote result
        extract_step_page, OF c s(1)]
      run_handler_published [of uploadFiles "file" u a ids callAIAgent styleNote result
        "extract_step parse", OF c s(2)]
    show ?thesis by (simp add: handleTransform_def handleTransform_page_def)
  qed
  have 6: "handleTransform_page uploadFiles callAIAgent (Some file) styleNote st
           = handleTransform parse stringify uploadFiles callAIAgent (Some file) styleNote st
       \<and> handleTransform parse stringify uploadFiles callAIAgent (Some file) styleNote st
           = (st\<lparr>isTransforming := False,
                 error := Some (Text ''No image was generated. Please try again.''),
                 resultImageUrl := JNull, transformationDetails := None,
                 statusMessage := None\<rparr>,
              [UploadFiles file, CallAIAgent (build_message styleNote) AGENT_ID [a]])"
    if h: "uploadFiles file = Resolved u \<and> truthy (get u ''success'')
       \<and> get u ''asset_ids'' = JArr (a # ids)
       \<and> callAIAgent (build_message styleNote) AGENT_ID [a] = Resolved result
       \<and> truthy (get result ''success'')
       \<and> \<not> nonempty_array (get (get result ''module_outputs'') ''artifact_files'')
       \<and> \<not> truthy (extractImageUrl parse result)"
  proof -
    from h have s: "extract_step_page result = Inl (Error ''No image was generated. Please try again.'')"
      "extract_step parse result = Inl (Error ''No image was generated. Please try again.'')"
      using steps_without_artifact(1) [of result]
        steps_without_artifact(2) [of result parse] by simp_all
    from h have c: "uploadFiles file = Resolved u" "truthy (get u ''success'')"
      "get u ''asset_ids'' = JArr (a # ids)"
      "callAIAgent (build_message styleNote) AGENT_ID [a] = Resolved result"
      "truthy (get result ''success'')"
      by simp_all
    from run_handler_step4_failed [of uploadFiles "file" u a ids callAIAgent styleNote result
        extract_step_page _ details_step_page st, OF c s(1)]
      run_handler_step4_failed [of uploadFiles "file" u a ids callAIAgent styleNote result
        "extract_step parse" _ "extractTransformationDetails stringify" st, OF c s(2)]
    show ?thesis by (simp add: handleTransform_def handleTransform_page_def)
  qed
  from 1 2 3 4 5 6 show ?thesis by blast
qed

theorem C2_witness:
  "extract_step_page env_priority = Inr (JStr ''https://a.example/1.png'')
   \<and> extract_step parse_throws env_priority = Inr (JStr ''https://a.example/1.png'')
   \<and> resultImageUrl (fst (handleTransform_page upload_ok agent_ok (Some ''photo.png'') ''neon'' idle))
       = JStr ''https://a.example/1.png''
   \<and> error (fst (handleTransform_page upload_ok agent_ok (Some ''photo.png'') ''neon'' idle)) = None
   \<and> resultImageUrl
       (fst (handleTransform parse_throws json_stringify upload_ok agent_ok (Some ''photo.png'') ''neon'' idle))
       = JStr ''https://a.example/1.png''
   \<and> error
       (fst (handleTransform parse_throws json_stringify upload_ok agent_ok (Some ''photo.png'') ''neon'' idle))
       = None
   \<and> truthy (get env_nothing ''success'')
   \<and> extract_step_page env_nothing = Inl (Error ''No image was generated. Please try again.'')
   \<and> extract_step parse_throws env_nothing = Inl (Error ''No image was generated. Please try again.'')
   \<and> handleTransform_page upload_ok agent_nothing (Some ''photo.png'') ''neon'' idle
       = handleTransform parse_throws json_stringify upload_ok agent_nothing (Some ''photo.png'') ''neon'' idle
   \<and> error
       (fst (handleTransform parse_throws json_stringify upload_ok agent_nothing (Some ''photo.png'')
          ''neon'' idle))
       = Some (Text ''No image was generated. Please try again.'')
   \<and> extract_step_page env_url_only = Inl (Error ''No image was generated. Please try again.'')
   \<and> extract_step parse_throws env_url_only = Inr (JStr ''https://b.example/2.png'')"
proof -
  have a: "get (get env_priority ''module_outputs'') ''artifact_files''
     = JArr (JObj [(''file_url'', JStr ''https://a.example/1.png'')] # [])"
    by (simp add: env_priority_def)
  have t: "truthy (get (JObj [(''file_url'', JStr ''https://a.example/1.png'')]) ''file_url'')"
    by simp
  have s: "truthy (get env_priority ''success'')"
    by (simp add: env_priority_def)
  have u: "upload_ok ''photo.png''
      = Resolved (JObj [(''success'', JBool True), (''asset_ids'', JArr [JStr ''asset-1''])])"
    "truthy (get (JObj [(''success'', JBool True), (''asset_ids'', JArr [JStr ''asset-1''])]) ''success'')"
    "get (JObj [(''success'', JBool True), (''asset_ids'', JArr [JStr ''asset-1''])]) ''asset_ids''
      = JArr (JStr ''asset-1'' # [])"
    by (simp_all add: upload_ok_def)
  have g: "agent_ok (build_message ''neon'') AGENT_ID [JStr ''asset-1''] = Resolved env_priority"
    by (simp add: agent_ok_def)
  have g0: "agent_nothing (build_message ''neon'') AGENT_ID [JStr ''asset-1''] = Resolved env_nothing"
    by (simp add: agent_nothing_def)
  have n: "truthy (get env_nothing ''success'')"
    "\<not> nonempty_array (get (get env_nothing ''module_outputs'') ''artifact_files'')"
    "\<not> truthy (extractImageUrl parse_throws env_nothing)"
    by (simp_all add: env_nothing_def extractImageUrl_def path1_def path2_def path3_def path4_def
        path5_def artifact_file_url_def)
  have o: "\<not> nonempty_array (get (get env_url_only ''module_outputs'') ''artifact_files'')"
    "extractImageUrl parse_throws env_url_only = JStr ''https://b.example/2.png''"
    by (simp_all add: env_url_only_def extractImageUrl_def path1_def path2_def artifact_file_url_def)
  note w1 = C2_steps_agree_on_artifact
    [of env_priority "JObj [(''file_url'', JStr ''https://a.example/1.png'')]" "[]" parse_throws
      "JStr ''https://a.example/1.png''" upload_ok "''photo.png''"
      "JObj [(''success'', JBool True), (''asset_ids'', JArr [JStr ''asset-1''])]"
      "JStr ''asset-1''" "[]" agent_ok "''neon''" idle json_stringify]
  note w2 = C2_steps_agree_on_artifact
    [of env_nothing JNull "[]" parse_throws JNull upload_ok "''photo.png''"
      "JObj [(''success'', JBool True), (''asset_ids'', JArr [JStr ''asset-1''])]"
      "JStr ''asset-1''" "[]" agent_nothing "''neon''" idle json_stringify]
  note w3 = C2_steps_agree_on_artifact
    [of env_url_only JNull "[]" parse_throws JNull upload_ok "''photo.png''"
      "JObj [(''success'', JBool True), (''asset_ids'', JArr [JStr ''asset-1''])]"
      "JStr ''asset-1''" "[]" agent_url_only "''neon''" idle json_stringify]
  from w1 a t s u g have 1:
    "extract_step_page env_priority = Inr (JStr ''https://a.example/1.png'')"
    "extract_step parse_throws env_priority = Inr (JStr ''https://a.example/1.png'')"
    "resultImageUrl (fst (handleTransform_page upload_ok agent_ok (Some ''photo.png'') ''neon'' idle))
       = JStr ''https://a.example/1.png''"
    "error (fst (handleTransform_page upload_ok agent_ok (Some ''photo.png'') ''neon'' idle)) = None"
    "resultImageUrl
       (fst (handleTransform parse_throws json_stringify upload_ok agent_ok (Some ''photo.png'') ''neon'' idle))
       = JStr ''https://a.example/1.png''"
    "error
       (fst (handleTransform parse_throws json_stringify upload_ok agent_ok (Some ''photo.png'') ''neon'' idle))
       = None"
    by simp_all
  from w2 n u g0 have 2:
    "extract_step_page env_nothing = Inl (Error ''No image was generated. Please try again.'')"
    "extract_step parse_throws env_nothing = Inl (Error ''No image was generated. Please try again.'')"
    "handleTransform_page upload_ok agent_nothing (Some ''photo.png'') ''neon'' idle
       = handleTransform parse_throws json_stringify upload_ok agent_nothing (Some ''photo.png'') ''neon'' idle"
    "error
       (fst (handleTransform parse_throws json_stringify upload_ok agent_nothing (Some ''photo.png'')
          ''neon'' idle))
       = Some (Text ''No image was generated. Please try again.'')"
    by simp_all
  from w3 o have 3:
    "extract_step_page env_url_only = Inl (Error ''No image was generated. Please try again.'')"
    "extract_step parse_throws env_url_only = Inr (JStr ''https://b.example/2.png'')"
    by simp_all
  from 1 2 3 n(1) show ?thesis by simp
qed

text \<open>
  C2 as stated fails: on a successful envelope whose image is under \<^verbatim>\<open>module_outputs.url\<close>
  the step of \<^verbatim>\<open>page.tsx\<close> fails with the "No image was generated" error and the step of
  \<^verbatim>\<open>part_000\<close> publishes the URL.
\<close>

theorem C2_counterexample:
  "truthy (get env_url_only ''success'')
   \<and> extract_step_page env_url_only = Inl (Error ''No image was generated. Please try again.'')
   \<and> extract_step parse_throws env_url_only = Inr (JStr ''https://b.example/2.png'')"
  by (simp add: env_url_only_def extract_step_page_def extract_step_def extractImageUrl_def
      path1_def path2_def artifact_file_url_def)

section \<open>Strategy 3: the result mapping\<close>

lemma path3_result_strategy:
  "result_strategy (JObj r) = Some v \<Longrightarrow> path3_on (JObj r) = Some v"
  by (auto simp: result_strategy_def path3_on_def result_keys_def or_js_def
      split: if_splits jv.splits list.splits)

text \<open>
  C3 (as amended): when \<^verbatim>\<open>module_outputs.artifact_files\<close> is an empty sequence, no other
  field of \<^verbatim>\<open>module_outputs\<close> matches and \<^verbatim>\<open>response.result\<close> is a mapping,
  \<^verbatim>\<open>extractImageUrl\<close> returns what strategy 3 finds: the first truthy of \<^verbatim>\<open>image_url\<close>,
  \<^verbatim>\<open>url\<close>, \<^verbatim>\<open>image\<close>, \<^verbatim>\<open>output_image\<close>, \<^verbatim>\<open>generated_image\<close>, \<^verbatim>\<open>file_url\<close>; failing
  those, the truthy \<^verbatim>\<open>file_url\<close>, else the truthy \<^verbatim>\<open>url\<close>, of element 0 of a non-empty
  \<^verbatim>\<open>result.artifact_files\<close>; and when \<^verbatim>\<open>result.artifact_files\<close> is not a non-empty
  sequence, the truthy \<^verbatim>\<open>result.module_outputs.artifact_files[0].file_url\<close>.
\<close>

theorem C3_result_mapping:
  assumes "get (get env ''module_outputs'') ''artifact_files'' = JArr []"
    and "path2 env = None"
    and "get (get env ''response'') ''result'' = JObj r"
    and "result_strategy (JObj r) = Some v"
  shows "extractImageUrl parse env = v"
proof -
  have "path1 env = None"
    using assms(1) by (simp add: path1_def artifact_file_url_def)
  moreover have "path3 env = Some v"
    using assms(3) path3_result_strategy [OF assms(4)] by (simp add: path3_def)
  ultimately show ?thesis
    using assms(2) by (simp add: extractImageUrl_def)
qed

theorem C3_witness:
  "get (get env_result_image_url ''module_outputs'') ''artifact_files'' = JArr []
   \<and> path2 env_result_image_url = None
   \<and> get (get env_result_image_url ''response'') ''result'' = JObj [(''image_url'', JStr ''X'')]
   \<and> result_strategy (JObj [(''image_url'', JStr ''X'')]) = Some (JStr ''X'')
   \<and> extractImageUrl parse_throws env_result_image_url = JStr ''X''"
proof -
  have a: "get (get env_result_image_url ''module_outputs'') ''artifact_files'' = JArr []"
    by (simp add: env_result_image_url_def)
  have b: "path2 env_result_image_url = None"
    by (simp add: env_result_image_url_def path2_def)
  have c: "get (get env_result_image_url ''response'') ''result'' = JObj [(''image_url'', JStr ''X'')]"
    by (simp add: env_result_image_url_def)
  have d: "result_strategy (JObj [(''image_url'', JStr ''X'')]) = Some (JStr ''X'')"
    by (simp add: result_strategy_def result_keys_def)
  from C3_result_mapping [OF a b c d, of parse_throws] a b c d show ?thesis by simp
qed

text \<open>
  C3 as stated fails: the first present key of \<^verbatim>\<open>response.result\<close> is \<^verbatim>\<open>image_url\<close>,
  with the value \<^verbatim>\<open>""\<close>, and the function returns the value of \<^verbatim>\<open>url\<close>.
\<close>

theorem C3_counterexample:
  "get (get env_result_empty_image_url ''module_outputs'') ''artifact_files'' = JArr []
   \<and> path2 env_result_empty_image_url = None
   \<and> get (get (get env_result_empty_image_url ''response'') ''result'') ''image_url'' = JStr []
   \<and> extractImageUrl parse_throws env_result_empty_image_url = JStr ''https://b.example/2.png''"
  by (simp add: env_result_empty_image_url_def extractImageUrl_def path1_def path2_def
      path3_def path3_on_def artifact_file_url_def)

section \<open>The matcher and the language of a pattern\<close>

lemma plus_rems_set:
  "set (plus_rems ic a s) = {rest. \<exists>u. u \<noteq> [] \<and> (\<forall>c \<in> set u. atom_ok ic a c) \<and> s = u @ rest}"
proof (induction s)
  case Nil
  then show ?case by simp
next
  case (Cons c cs)
  show ?case
  proof (cases "atom_ok ic a c")
    case False
    then show ?thesis by (auto simp: Cons_eq_append_conv)
  next
    case True
    have "{rest. \<exists>u. u \<noteq> [] \<and> (\<forall>x \<in> set u. atom_ok ic a x) \<and> c # cs = u @ rest}
      = insert cs {rest. \<exists>u. u \<noteq> [] \<and> (\<forall>x \<in> set u. atom_ok ic a x) \<and> cs = u @ rest}"
      (is "?L = insert cs ?R")
    proof (intro set_eqI iffI)
      fix rest assume "rest \<in> ?L"
      then obtain u where u: "u \<noteq> []" "\<forall>x \<in> set u. atom_ok ic a x" "c # cs = u @ rest" by blast
      then obtain u' where u': "u = c # u'" "cs = u' @ rest" by (auto simp: Cons_eq_append_conv)
      show "rest \<in> insert cs ?R"
      proof (cases "u' = []")
        case True with u' show ?thesis by simp
      next
        case False with u u' show ?thesis by auto
      qed
    next
      fix rest assume "rest \<in> insert cs ?R"
      then consider "rest = cs" | "rest \<in> ?R" by blast
      then show "rest \<in> ?L"
      proof cases
        case 1
        with True have "[c] \<noteq> [] \<and> (\<forall>x \<in> set [c]. atom_ok ic a x) \<and> c # cs = [c] @ rest" by simp
        then show ?thesis by blast
      next
        case 2
        then obtain u where u: "u \<noteq> []" "\<forall>x \<in> set u. atom_ok ic a x" "cs = u @ rest" by blast
        with True have "c # u \<noteq> [] \<and> (\<forall>x \<in> set (c # u). atom_ok ic a x) \<and> c # cs = (c # u) @ rest" by simp
        then show ?thesis by blast
      qed
    qed
    with True Cons show ?thesis by simp
  qed
qed

lemma ms_lang: "set (ms ic r s) = {rest. \<exists>u. u \<in> lang ic r \<and> s = u @ rest}"
proof (induction r arbitrary: s)
  case (Atom a)
  show ?case by (cases s) auto
next
  case (Seq r1 r2)
  show ?case
  proof (intro set_eqI iffI)
    fix rest assume "rest \<in> set (ms ic (Seq r1 r2) s)"
    then obtain mid where "mid \<in> set (ms ic r1 s)" "rest \<in> set (ms ic r2 mid)" by auto
    then obtain u v where "u \<in> lang ic r1" "s = u @ mid" "v \<in> lang ic r2" "mid = v @ rest"
      using Seq by blast
    then have "u @ v \<in> lang ic (Seq r1 r2) \<and> s = (u @ v) @ rest" by auto
    then show "rest \<in> {rest. \<exists>u. u \<in> lang ic (Seq r1 r2) \<and> s = u @ rest}" by blast
  next
    fix rest assume "rest \<in> {rest. \<exists>u. u \<in> lang ic (Seq r1 r2) \<and> s = u @ rest}"
    then obtain u v where uv: "u \<in> lang ic r1" "v \<in> lang ic r2" "s = (u @ v) @ rest" by auto
    then have "v @ rest \<in> set (ms ic r1 s)" using Seq.IH(1) [of s] by auto
    moreover have "rest \<in> set (ms ic r2 (v @ rest))" using Seq.IH(2) [of "v @ rest"] uv by auto
    ultimately show "rest \<in> set (ms ic (Seq r1 r2) s)" by auto
  qed
next
  case (Plus a)
  show ?case by (simp add: plus_rems_set)
qed auto

lemma ms_empty_iff: "ms ic r s = [] \<longleftrightarrow> \<not> (\<exists>u rest. u \<in> lang ic r \<and> s = u @ rest)"
proof -
  have "ms ic r s = [] \<longleftrightarrow> set (ms ic r s) = {}" by simp
  then show ?thesis unfolding ms_lang by blast
qed

lemma search_None: "search ic r s = None \<Longrightarrow> s = pre @ u @ post \<Longrightarrow> u \<notin> lang ic r"
proof (induction s arbitrary: pre)
  case Nil
  then have "ms ic r [] = []" by (simp split: list.splits)
  with Nil show ?case by (auto simp: ms_empty_iff)
next
  case (Cons c cs)
  from Cons.prems(1) have e: "ms ic r (c # cs) = []" and n: "search ic r cs = None"
    by (simp_all split: list.splits)
  show ?case
  proof (cases pre)
    case Nil
    with Cons.prems(2) e show ?thesis by (auto simp: ms_empty_iff)
  next
    case (Cons p pre')
    with Cons.prems(2) have "cs = pre' @ u @ post" by simp
    from Cons.IH [OF n this] show ?thesis .
  qed
qed

lemma search_leftmost: "search ic r s = Some u \<Longrightarrow> leftmost_match (\<lambda>u. u \<in> lang ic r) s u"
proof (induction s)
  case Nil
  then have "u = []" and "ms ic r [] \<noteq> []" by (auto split: list.splits)
  then have "[] \<in> lang ic r" by (auto simp: ms_empty_iff)
  with \<open>u = []\<close> show ?case by (simp add: leftmost_match_def)
next
  case (Cons c cs)
  show ?case
  proof (cases "ms ic r (c # cs)")
    case Nil
    with Cons.prems have "search ic r cs = Some u" by simp
    from Cons.IH [OF this] have "\<exists>pre post. cs = pre @ u @ post \<and> u \<in> lang ic r
        \<and> (\<forall>pre' u' post'. cs = pre' @ u' @ post' \<and> u' \<in> lang ic r \<longrightarrow> length pre \<le> length pre')"
      unfolding leftmost_match_def .
    then obtain pre post where p: "cs = pre @ u @ post" "u \<in> lang ic r"
      and m: "\<And>pre' u' post'. cs = pre' @ u' @ post' \<Longrightarrow> u' \<in> lang ic r \<Longrightarrow> length pre \<le> length pre'"
      by blast
    have "length (c # pre) \<le> length pre'"
      if "c # cs = pre' @ u' @ post'" "u' \<in> lang ic r" for pre' u' post'
    proof (cases pre')
      case Nil
      with that \<open>ms ic r (c # cs) = []\<close> show ?thesis by (auto simp: ms_empty_iff)
    next
      case (Cons q pre'')
      with that m [of pre'' u' post'] show ?thesis by simp
    qed
    moreover from p have "c # cs = (c # pre) @ u @ post" by simp
    ultimately show ?thesis using p(2) unfolding leftmost_match_def by blast
  next
    case (Cons rest rs)
    then have "rest \<in> set (ms ic r (c # cs))" by simp
    then obtain u0 where u0: "u0 \<in> lang ic r" "c # cs = u0 @ rest" unfolding ms_lang by blast
    from Cons Cons.prems have "u = take (length (c # cs) - length rest) (c # cs)" by simp
    with u0 have "u = u0" by simp
    with u0 have "c # cs = [] @ u @ rest" "u \<in> lang ic r" by simp_all
    then show ?thesis unfolding leftmost_match_def by (metis le0 list.size(3))
  qed
qed

lemma canon_range:
  "97 \<le> (of_char x :: nat) \<Longrightarrow> (of_char x :: nat) \<le> 122 \<Longrightarrow> (of_char (canon x) :: nat) = of_char x - 32"
  by (simp add: canon_def)

lemma canon_other:
  "canon x = c \<Longrightarrow> \<not> (65 \<le> (of_char c :: nat) \<and> (of_char c :: nat) \<le> 90) \<Longrightarrow> x = c"
  using canon_range [of x]
  by (cases "97 \<le> (of_char x :: nat) \<and> (of_char x :: nat) \<le> 122") (auto simp: canon_def)

lemma canon_http: "map canon ''http'' = ''HTTP''"
  by code_simp

lemma canon_s: "canon CHR ''s'' = CHR ''S''"
  by code_simp

lemma canon_sep: "map canon ''://'' = ''://''"
  by (simp add: canon_def)

lemma canon_dot: "canon CHR ''.'' = CHR ''.''"
  by (simp add: canon_def)

lemma canon_sep_only: "map canon c = ''://'' \<Longrightarrow> c = ''://''"
  by (auto simp: map_eq_Cons_conv dest!: canon_other)

lemma canon_dot_only: "canon x = CHR ''.'' \<Longrightarrow> x = CHR ''.''"
  by (auto dest!: canon_other)

lemma lang_SeqI: "u \<in> lang ic r1 \<Longrightarrow> v \<in> lang ic r2 \<Longrightarrow> u @ v \<in> lang ic (Seq r1 r2)"
  by auto

lemma lang_Atom_Seq:
  "lang ic (Seq (Atom a) r) = {x # v | x v. atom_ok ic a x \<and> v \<in> lang ic r}"
proof (intro set_eqI iffI)
  fix w assume "w \<in> lang ic (Seq (Atom a) r)"
  then obtain u v where "w = u @ v" "u \<in> lang ic (Atom a)" "v \<in> lang ic r" by auto
  moreover then obtain x where "u = [x]" "atom_ok ic a x" by auto
  ultimately have "w = x # v \<and> atom_ok ic a x \<and> v \<in> lang ic r" by simp
  then show "w \<in> {x # v | x v. atom_ok ic a x \<and> v \<in> lang ic r}" by blast
next
  fix w assume "w \<in> {x # v | x v. atom_ok ic a x \<and> v \<in> lang ic r}"
  then obtain x v where w: "w = x # v" "atom_ok ic a x" "v \<in> lang ic r" by blast
  then have "[x] \<in> lang ic (Atom a)" by simp
  from lang_SeqI [OF this w(3)] w(1) show "w \<in> lang ic (Seq (Atom a) r)" by simp
qed

lemma lang_lit: "lang True (lit w) = {u. map canon u = map canon w}"
proof (induction w)
  case Nil
  then show ?case by simp
next
  case (Cons c cs)
  have "lang True (lit (c # cs)) = {x # v | x v. canon c = canon x \<and> v \<in> lang True (lit cs)}"
    unfolding lit.simps lang_Atom_Seq by simp
  also have "\<dots> = {x # v | x v. canon c = canon x \<and> map canon v = map canon cs}"
    unfolding Cons.IH by simp
  also have "\<dots> = {u. map canon u = map canon (c # cs)}"
  proof (intro set_eqI iffI)
    fix u assume "u \<in> {x # v | x v. canon c = canon x \<and> map canon v = map canon cs}"
    then obtain x v where "u = x # v" "canon c = canon x" "map canon v = map canon cs" by blast
    then show "u \<in> {u. map canon u = map canon (c # cs)}" by simp
  next
    fix u assume "u \<in> {u. map canon u = map canon (c # cs)}"
    then have m: "map canon u = canon c # map canon cs" by simp
    then obtain x v where "u = x # v" by (cases u) auto
    with m have "u = x # v \<and> canon c = canon x \<and> map canon v = map canon cs" by simp
    then show "u \<in> {x # v | x v. canon c = canon x \<and> map canon v = map canon cs}" by blast
  qed
  finally show ?case .
qed

lemma lang_alts: "lang True (alts es) = {u. \<exists>e \<in> set es. map canon u = map canon e}"
proof (induction es)
  case Nil
  then show ?case by simp
next
  case (Cons e es)
  have "lang True (alts (e # es)) = lang True (lit e) \<union> lang True (alts es)" by simp
  also have "\<dots> = {u. map canon u = map canon e} \<union> {u. \<exists>e \<in> set es. map canon u = map canon e}"
    unfolding lang_lit Cons.IH ..
  also have "\<dots> = {u. \<exists>x \<in> set (e # es). map canon u = map canon x}" by auto
  finally show ?case .
qed
lemma lang_url_rx_1:
  assumes "u \<in> lang True (url_rx excl exts)"
  shows "is_image_url excl exts u"
proof -
  from assms obtain a b c d e f where u: "u = a @ b @ c @ d @ e @ f"
    and a: "a \<in> lang True (lit ''http'')" and b: "b \<in> lang True (Opt (Atom (Lit CHR ''s'')))"
    and c: "c \<in> lang True (lit ''://'')" and d: "d \<in> lang True (Plus (NoneOf excl))"
    and e: "e \<in> lang True (Atom (Lit CHR ''.''))" and f: "f \<in> lang True (alts exts)"
    unfolding url_rx_def lang.simps(4) by blast
  from a have "map canon a = map canon ''http''" unfolding lang_lit by simp
  then have a': "map canon a = ''HTTP''" unfolding canon_http .
  from b have b': "b = [] \<or> map canon b = ''S''" by (auto simp: canon_s)
  from c have "map canon c = map canon ''://''" unfolding lang_lit by simp
  then have "map canon c = ''://''" unfolding canon_sep .
  then have c': "c = ''://''" by (rule canon_sep_only)
  from e obtain x where "e = [x]" "canon CHR ''.'' = canon x" by auto
  then have e': "e = ''.''" using canon_dot_only [of x] by (simp add: canon_dot)
  from d have d': "d \<noteq> []" "\<forall>x \<in> set d. canon x \<notin> canon ` set excl" by auto
  from f have f': "\<exists>x \<in> set exts. map canon f = map canon x" by (simp add: lang_alts)
  from a' b' have s: "map canon (a @ b) = ''HTTP'' \<or> map canon (a @ b) = ''HTTPS''" by auto
  from u c' e' have u': "u = (a @ b) @ ''://'' @ d @ ''.'' @ f" by simp
  have F: "u = (a @ b) @ ''://'' @ d @ ''.'' @ f
        \<and> (map canon (a @ b) = ''HTTP'' \<or> map canon (a @ b) = ''HTTPS'')
        \<and> d \<noteq> [] \<and> (\<forall>c \<in> set d. canon c \<notin> canon ` set excl)
        \<and> (\<exists>e \<in> set exts. map canon f = map canon e)"
    by (intro conjI u' s d' f')
  show ?thesis unfolding is_image_url_def
    by (rule exI [of _ "a @ b"], rule exI [of _ d], rule exI [of _ f]) (rule F)
qed
lemma lang_url_rx_2:
  assumes "is_image_url excl exts u"
  shows "u \<in> lang True (url_rx excl exts)"
proof -
  from assms have "\<exists>scheme body ext.
        u = scheme @ ''://'' @ body @ ''.'' @ ext
        \<and> (map canon scheme = ''HTTP'' \<or> map canon scheme = ''HTTPS'')
        \<and> body \<noteq> [] \<and> (\<forall>c \<in> set body. canon c \<notin> canon ` set excl)
        \<and> (\<exists>e \<in> set exts. map canon ext = map canon e)"
    unfolding is_image_url_def .
  then obtain scheme body ext where u: "u = scheme @ ''://'' @ body @ ''.'' @ ext"
    and s: "map canon scheme = ''HTTP'' \<or> map canon scheme = ''HTTPS''"
    and b: "body \<noteq> []" "\<forall>c \<in> set body. canon c \<notin> canon ` set excl"
    and x: "\<exists>e \<in> set exts. map canon ext = map canon e"
    by (elim exE conjE)
  have "\<exists>a b. scheme = a @ b \<and> map canon a = ''HTTP'' \<and> (b = [] \<or> map canon b = ''S'')"
  proof (cases "map canon scheme = ''HTTP''")
    case True
    then have "scheme = scheme @ [] \<and> map canon scheme = ''HTTP'' \<and> ([] = [] \<or> map canon [] = ''S'')"
      by simp
    then show ?thesis by (intro exI)
  next
    case False
    with s have "map canon scheme = ''HTTP'' @ ''S''" by simp
    then obtain a b where p: "scheme = a @ b" "''HTTP'' = map canon a" "''S'' = map canon b"
      unfolding map_eq_append_conv by (elim exE conjE)
    have "scheme = a @ b \<and> map canon a = ''HTTP'' \<and> (b = [] \<or> map canon b = ''S'')"
      by (intro conjI disjI2 p(1) p(2) [symmetric] p(3) [symmetric])
    then show ?thesis by (intro exI)
  qed
  then obtain a b where ab: "scheme = a @ b" "map canon a = ''HTTP''" "b = [] \<or> map canon b = ''S''"
    by (elim exE conjE)
  from ab(2) have a: "a \<in> lang True (lit ''http'')" unfolding lang_lit canon_http by simp
  from ab(3) have o: "b \<in> lang True (Opt (Atom (Lit CHR ''s'')))"
  proof
    assume "b = []" then show ?thesis by simp
  next
    assume "map canon b = ''S''"
    then obtain z where "b = [z]" "canon z = CHR ''S''" by (auto simp: map_eq_Cons_conv)
    then show ?thesis by (simp add: canon_s)
  qed
  have c: "''://'' \<in> lang True (lit ''://'')" unfolding lang_lit by (simp only: mem_Collect_eq)
  have d: "body \<in> lang True (Plus (NoneOf excl))" using b by auto
  have e: "''.'' \<in> lang True (Atom (Lit CHR ''.''))" by simp
  have f: "ext \<in> lang True (alts exts)" using x by (simp add: lang_alts)
  have "a @ (b @ (''://'' @ (body @ (''.'' @ ext)))) \<in> lang True (url_rx excl exts)"
    unfolding url_rx_def
    by (rule lang_SeqI [OF a], rule lang_SeqI [OF o], rule lang_SeqI [OF c],
        rule lang_SeqI [OF d], rule lang_SeqI [OF e], rule f)
  moreover have "u = a @ (b @ (''://'' @ (body @ (''.'' @ ext))))" using u ab(1) by simp
  ultimately show "u \<in> lang True (url_rx excl exts)" by simp
qed

lemma lang_url_rx: "u \<in> lang True (url_rx excl exts) \<longleftrightarrow> is_image_url excl exts u"
  using lang_url_rx_1 lang_url_rx_2 by blast

lemma url_match_leftmost:
  "search True (url_rx excl exts) s = Some u \<Longrightarrow> leftmost_match (is_image_url excl exts) s u"
  using search_leftmost [of True "url_rx excl exts" s u] by (simp add: lang_url_rx)

lemma url_match_none:
  "search True (url_rx excl exts) s = None \<Longrightarrow> s = pre @ u @ post \<Longrightarrow> \<not> is_image_url excl exts u"
  using search_None [of True "url_rx excl exts" s pre u post] by (simp add: lang_url_rx)

lemma url_match_nonempty: "search True (url_rx excl exts) s = Some u \<Longrightarrow> u \<noteq> []"
proof -
  assume "search True (url_rx excl exts) s = Some u"
  from url_match_leftmost [OF this] have "is_image_url excl exts u"
    unfolding leftmost_match_def by (elim exE conjE)
  then show ?thesis unfolding is_image_url_def by auto
qed

lemma ms_url_Nil: "ms True (url_rx excl exts) [] = []"
  by (simp add: url_rx_def)

section \<open>The match returned is the longest at the leftmost position\<close>

lemma asc_short: "length L \<le> 1 \<Longrightarrow> asc L"
  by (cases L) (auto simp: asc_def)

lemma asc_head: "asc (x # xs) \<Longrightarrow> y \<in> set (x # xs) \<Longrightarrow> length x \<le> length y"
  by (auto simp: asc_def)

lemma ms_rest_le: "rest \<in> set (ms ic r t) \<Longrightarrow> length rest \<le> length t"
  unfolding ms_lang by auto

lemma plus_rems_strict:
  "sorted_wrt (\<lambda>a b. length a < length b) (plus_rems ic a t)
   \<and> (\<forall>x \<in> set (plus_rems ic a t). length x < length t)"
proof (induction t)
  case Nil
  then show ?case by simp
next
  case (Cons c cs)
  then show ?case by (auto simp: sorted_wrt_append)
qed

lemma ms_lit:
  "ms True (lit w) t =
     (if length w \<le> length t \<and> map canon (take (length w) t) = map canon w
      then [drop (length w) t] else [])"
proof (induction w arbitrary: t)
  case Nil
  then show ?case by simp
next
  case (Cons c w)
  show ?case
  proof (cases t)
    case Nil
    then show ?thesis by simp
  next
    case (Cons x xs)
    show ?thesis
    proof (cases "canon c = canon x")
      case True
      with Cons Cons.IH [of xs] show ?thesis by simp
    next
      case False
      then have "canon x \<noteq> canon c" by simp
      with False Cons show ?thesis by simp
    qed
  qed
qed

lemma ms_alts: "ms True (alts E) t = concat (map (\<lambda>e. ms True (lit e) t) E)"
  by (induction E) simp_all

lemma matches_clash: "matches_at e t \<Longrightarrow> matches_at f t \<Longrightarrow> clash e f"
proof -
  assume e: "matches_at e t" and f: "matches_at f t"
  let ?m = "min (length e) (length f)"
  from e have "map canon e = take (length e) (map canon t)" by (simp add: matches_at_def take_map)
  then have "take ?m (map canon e) = take ?m (map canon t)" by (simp add: min_def)
  moreover from f have "map canon f = take (length f) (map canon t)"
    by (simp add: matches_at_def take_map)
  then have "take ?m (map canon f) = take ?m (map canon t)" by (simp add: min_def)
  ultimately show ?thesis by (simp add: clash_def)
qed

lemma ms_alts_le1: "prefix_free E \<Longrightarrow> length (ms True (alts E) t) \<le> 1"
proof (induction E)
  case Nil
  then show ?case by simp
next
  case (Cons e es)
  show ?case
  proof (cases "matches_at e t")
    case False
    then have "ms True (lit e) t = []" by (simp add: ms_lit matches_at_def)
    then have "ms True (alts (e # es)) t = ms True (alts es) t" by simp
    moreover from Cons have "length (ms True (alts es) t) \<le> 1" by simp
    ultimately show ?thesis by simp
  next
    case True
    have "ms True (lit f) t = []" if "f \<in> set es" for f
    proof -
      from Cons.prems that have "\<not> clash e f" by (simp add: list_all_iff)
      with matches_clash [OF True] have "\<not> matches_at f t" by blast
      then show ?thesis by (simp add: ms_lit matches_at_def)
    qed
    then have "concat (map (\<lambda>e. ms True (lit e) t) es) = []" by simp
    then have "ms True (alts es) t = []" by (simp add: ms_alts)
    moreover have "length (ms True (lit e) t) \<le> 1" by (simp add: ms_lit)
    ultimately show ?thesis by simp
  qed
qed

lemma ms_alts_width:
  "rest \<in> set (ms True (alts E) t) \<Longrightarrow> \<exists>e \<in> set E. length t = length e + length rest"
proof -
  assume "rest \<in> set (ms True (alts E) t)"
  then obtain e where e: "e \<in> set E" "rest \<in> set (ms True (lit e) t)"
    by (auto simp: ms_alts)
  then have "length e \<le> length t" "rest = drop (length e) t"
    by (auto simp: ms_lit split: if_splits)
  then have "length t = length e + length rest" by simp
  with e(1) show ?thesis by blast
qed

lemma ms_dot_alts:
  "ms True (Seq (Atom (Lit CHR ''.'')) (alts E)) t =
     (case t of [] \<Rightarrow> [] | c # cs \<Rightarrow> if canon CHR ''.'' = canon c then ms True (alts E) cs else [])"
  by (cases t) simp_all

lemma asc_concat:
  assumes "sorted_wrt (\<lambda>a b. length a < length b) mids"
    and "\<And>m. length (f m) \<le> 1"
    and "\<And>m rest. rest \<in> set (f m) \<Longrightarrow> length rest + k \<le> length m \<and> length m \<le> length rest + Suc k"
  shows "asc (concat (map f mids))"
  using assms(1)
proof (induction mids)
  case Nil
  then show ?case by (simp add: asc_def)
next
  case (Cons m ms)
  have a: "asc (f m)" by (rule asc_short) (rule assms(2))
  have b: "asc (concat (map f ms))" using Cons by simp
  have c: "length x \<le> length y" if "x \<in> set (f m)" "y \<in> set (concat (map f ms))" for x y
  proof -
    from that(2) obtain m' where m': "m' \<in> set ms" "y \<in> set (f m')" by auto
    with Cons.prems have "length m < length m'" by simp
    moreover from assms(3) [OF that(1)] have "length x + k \<le> length m" by simp
    moreover from assms(3) [OF m'(2)] have "length m' \<le> length y + Suc k" by simp
    ultimately show ?thesis by simp
  qed
  from a b c show ?case by (auto simp: asc_def sorted_wrt_append)
qed

lemma dot_alts_le1:
  "prefix_free E \<Longrightarrow> length (ms True (Seq (Atom (Lit CHR ''.'')) (alts E)) t) \<le> 1"
proof (cases t)
  case Nil
  then show ?thesis by (simp add: ms_dot_alts)
next
  case (Cons c cs)
  assume "prefix_free E"
  from ms_alts_le1 [OF this, of cs] Cons show ?thesis by (simp add: ms_dot_alts)
qed

lemma dot_alts_width:
  assumes "ext_widths n E" and "rest \<in> set (ms True (Seq (Atom (Lit CHR ''.'')) (alts E)) t)"
  shows "length rest + Suc n \<le> length t \<and> length t \<le> length rest + Suc (Suc n)"
proof -
  from assms(2) obtain c cs where t: "t = c # cs" and r: "rest \<in> set (ms True (alts E) cs)"
    unfolding ms_dot_alts by (cases t) (auto split: if_splits)
  from ms_alts_width [OF r] obtain e where e: "e \<in> set E" "length cs = length e + length rest"
    by blast
  from assms(1) e(1) have "n \<le> length e \<and> length e \<le> Suc n"
    by (simp add: ext_widths_def list_all_iff)
  with e(2) t show ?thesis by simp
qed

lemma asc_plus_dot:
  assumes "prefix_free E" and "ext_widths n E"
  shows "asc (ms True (Seq (Plus a) (Seq (Atom (Lit CHR ''.'')) (alts E))) t)"
proof -
  have "asc (concat (map (ms True (Seq (Atom (Lit CHR ''.'')) (alts E))) (plus_rems True a t)))"
  proof (rule asc_concat [where k = "Suc n"])
    show "sorted_wrt (\<lambda>a b. length a < length b) (plus_rems True a t)"
      using plus_rems_strict [of True a t] by simp
    show "length (ms True (Seq (Atom (Lit CHR ''.'')) (alts E)) m) \<le> 1" for m
      by (rule dot_alts_le1 [OF assms(1)])
    show "length rest + Suc n \<le> length m \<and> length m \<le> length rest + Suc (Suc n)"
      if "rest \<in> set (ms True (Seq (Atom (Lit CHR ''.'')) (alts E)) m)" for m rest
      by (rule dot_alts_width [OF assms(2) that])
  qed
  then show ?thesis by simp
qed

lemma asc_seq_det:
  assumes "length (ms ic r1 t) \<le> 1" and "\<And>m. asc (ms ic r2 m)"
  shows "asc (ms ic (Seq r1 r2) t)"
proof (cases "ms ic r1 t")
  case Nil
  then show ?thesis by (simp add: asc_def)
next
  case (Cons m ms)
  with assms(1) have "ms = []" by simp
  with Cons assms(2) [of m] show ?thesis by simp
qed

lemma ms_lit_le1: "length (ms True (lit w) t) \<le> 1"
  by (simp add: ms_lit)

lemma lit_first_char:
  assumes "canon c \<noteq> canon d"
  shows "ms True (Seq (lit (d # w)) r) (c # cs) = []"
proof -
  from assms have "ms True (lit (d # w)) (c # cs) = []"
    unfolding ms_lit by auto
  then show ?thesis by simp
qed

lemma asc_opt_s:
  assumes "\<And>c cs. canon CHR ''s'' = canon c \<Longrightarrow> ms True x (c # cs) = []"
    and "\<And>m. asc (ms True x m)"
  shows "asc (ms True (Seq (Opt (Atom (Lit CHR ''s''))) x) t)"
proof (cases t)
  case Nil
  then have e: "ms True (Seq (Opt (Atom (Lit CHR ''s''))) x) t = ms True x []" by simp
  show ?thesis unfolding e by (rule assms(2))
next
  case (Cons c cs)
  show ?thesis
  proof (cases "canon CHR ''s'' = canon c")
    case True
    from assms(1) [OF True, of cs]
    have e: "ms True (Seq (Opt (Atom (Lit CHR ''s''))) x) t = ms True x cs"
      using True Cons by simp
    show ?thesis unfolding e by (rule assms(2))
  next
    case False
    then have e: "ms True (Seq (Opt (Atom (Lit CHR ''s''))) x) t = ms True x (c # cs)"
      using Cons by simp
    show ?thesis unfolding e by (rule assms(2))
  qed
qed

lemma sep_after_s:
  assumes "canon CHR ''s'' = canon c"
  shows "ms True (Seq (lit ''://'') r) (c # cs) = []"
proof -
  from assms have "canon c = CHR ''S''" by (simp add: canon_s)
  moreover have "canon CHR '':'' = CHR '':''" by (simp add: canon_def)
  ultimately have "canon c \<noteq> canon CHR '':''" by simp
  then show ?thesis by (rule lit_first_char)
qed

lemma asc_url_rx:
  assumes "prefix_free E" and "ext_widths n E"
  shows "asc (ms True (url_rx excl E) t)"
proof -
  have 1: "asc (ms True (Seq (lit ''://'')
      (Seq (Plus (NoneOf excl)) (Seq (Atom (Lit CHR ''.'')) (alts E)))) m)" for m
    by (rule asc_seq_det [OF ms_lit_le1 asc_plus_dot [OF assms]])
  have 2: "asc (ms True (Seq (Opt (Atom (Lit CHR ''s''))) (Seq (lit ''://'')
      (Seq (Plus (NoneOf excl)) (Seq (Atom (Lit CHR ''.'')) (alts E))))) m)" for m
    by (rule asc_opt_s [OF sep_after_s 1])
  show ?thesis unfolding url_rx_def
    by (rule asc_seq_det [OF ms_lit_le1 2])
qed

lemma search_first:
  assumes "search ic r s = Some u" and "\<And>t. asc (ms ic r t)"
  shows "first_match (\<lambda>u. u \<in> lang ic r) s u"
  using assms(1)
proof (induction s)
  case Nil
  then have "u = []" and "ms ic r [] \<noteq> []" by (auto split: list.splits)
  then have "[] \<in> lang ic r" by (auto simp: ms_empty_iff)
  with \<open>u = []\<close> have "[] = [] @ u @ [] \<and> u \<in> lang ic r
      \<and> (\<forall>pre' u' post'. [] = pre' @ u' @ post' \<and> u' \<in> lang ic r \<longrightarrow>
            length ([]::string) < length pre' \<or> (length ([]::string) = length pre' \<and> length u' \<le> length u))"
    by simp
  then show ?case unfolding first_match_def by blast
next
  case (Cons c cs)
  show ?case
  proof (cases "ms ic r (c # cs)")
    case Nil
    with Cons.prems have "search ic r cs = Some u" by simp
    from Cons.IH [OF this] have "\<exists>pre post. cs = pre @ u @ post \<and> u \<in> lang ic r
        \<and> (\<forall>pre' u' post'. cs = pre' @ u' @ post' \<and> u' \<in> lang ic r \<longrightarrow>
              length pre < length pre' \<or> (length pre = length pre' \<and> length u' \<le> length u))"
      unfolding first_match_def .
    then obtain pre post where p: "cs = pre @ u @ post" "u \<in> lang ic r"
      and m: "\<And>pre' u' post'. cs = pre' @ u' @ post' \<Longrightarrow> u' \<in> lang ic r \<Longrightarrow>
          length pre < length pre' \<or> (length pre = length pre' \<and> length u' \<le> length u)"
      by blast
    have "length (c # pre) < length pre' \<or> (length (c # pre) = length pre' \<and> length u' \<le> length u)"
      if "c # cs = pre' @ u' @ post'" "u' \<in> lang ic r" for pre' u' post'
    proof (cases pre')
      case Nil
      with that \<open>ms ic r (c # cs) = []\<close> show ?thesis by (auto simp: ms_empty_iff)
    next
      case (Cons q pre'')
      with that m [of pre'' u' post'] show ?thesis by simp
    qed
    moreover from p have "c # cs = (c # pre) @ u @ post" by simp
    ultimately show ?thesis using p(2) unfolding first_match_def by blast
  next
    case (Cons rest rs)
    then have "rest \<in> set (ms ic r (c # cs))" by simp
    then obtain u0 where u0: "u0 \<in> lang ic r" "c # cs = u0 @ rest" unfolding ms_lang by blast
    from Cons Cons.prems have "u = take (length (c # cs) - length rest) (c # cs)" by simp
    with u0 have "u = u0" by simp
    with u0 have s: "c # cs = [] @ u @ rest" "u \<in> lang ic r" by simp_all
    have "length ([]::string) < length pre' \<or> (length ([]::string) = length pre' \<and> length u' \<le> length u)"
      if "c # cs = pre' @ u' @ post'" "u' \<in> lang ic r" for pre' u' post'
    proof (cases pre')
      case Nil
      with that have "post' \<in> set (ms ic r (c # cs))" unfolding ms_lang by auto
      with Cons assms(2) [of "c # cs"] have "length rest \<le> length post'"
        using asc_head [of rest rs post'] by simp
      moreover from that Nil have "length (c # cs) = length u' + length post'" by simp
      moreover from s(1) have "length (c # cs) = length u + length rest" by simp
      ultimately show ?thesis using Nil by simp
    next
      case (Cons q pre'')
      then show ?thesis by simp
    qed
    with s show ?thesis unfolding first_match_def by blast
  qed
qed

lemma first_match_unique:
  assumes "first_match P s u" and "first_match P s v"
  shows "u = v"
proof -
  from assms(1) obtain pre post where u: "s = pre @ u @ post" "P u"
    and um: "\<And>pre' u' post'. s = pre' @ u' @ post' \<Longrightarrow> P u' \<Longrightarrow>
          length pre < length pre' \<or> (length pre = length pre' \<and> length u' \<le> length u)"
    unfolding first_match_def by blast
  from assms(2) obtain pre2 post2 where v: "s = pre2 @ v @ post2" "P v"
    and vm: "\<And>pre' u' post'. s = pre' @ u' @ post' \<Longrightarrow> P u' \<Longrightarrow>
          length pre2 < length pre' \<or> (length pre2 = length pre' \<and> length u' \<le> length v)"
    unfolding first_match_def by blast
  from um [OF v] vm [OF u] have l: "length pre = length pre2" "length u = length v" by auto
  from u(1) v(1) have "pre @ u @ post = pre2 @ v @ post2" by simp
  with l(1) have "u @ post = v @ post2" by simp
  with l(2) show ?thesis by simp
qed

lemma pf_message: "prefix_free message_extensions" by code_simp
lemma pf_raw: "prefix_free raw_extensions" by code_simp
lemma w_message: "ext_widths 3 message_extensions" by (simp add: ext_widths_def message_extensions_def)
lemma w_raw: "ext_widths 3 raw_extensions" by (simp add: ext_widths_def raw_extensions_def)

lemma url_match_first:
  assumes "search True (url_rx excl exts) s = Some u" and "prefix_free exts" and "ext_widths n exts"
  shows "first_match (is_image_url excl exts) s u"
  using search_first [of True "url_rx excl exts" s u, OF assms(1) asc_url_rx [OF assms(2,3)]]
  by (simp add: lang_url_rx)

section \<open>Strategy 4: the message\<close>

lemma path4_reached:
  assumes "path1 env = None" and "path2 env = None" and "path3 env = None"
    and "get (get env ''response'') ''message'' = JStr m"
    and "message_url_match m = Some u"
  shows "extractImageUrl parse env = JStr u
    \<and> first_match (is_image_url message_excluded message_extensions) m u"
proof -
  from assms(5) have "m \<noteq> []"
    by (auto simp: message_url_match_def ms_url_Nil)
  with assms(4,5) have "path4 env = Some (JStr u)" by (simp add: path4_def)
  with assms(1-3) have "extractImageUrl parse env = JStr u" by (simp add: extractImageUrl_def)
  moreover from assms(5) have "first_match (is_image_url message_excluded message_extensions) m u"
    unfolding message_url_match_def by (rule url_match_first [OF _ pf_message w_message])
  ultimately show ?thesis by simp
qed

lemma message_example:
  "message_url_match ''see https://x.com/a.png here'' = Some ''https://x.com/a.png''"
  by code_simp

lemma message_only_example:
  "extractImageUrl parse_throws env_message_only = JStr ''https://x.com/a.png''"
  by code_simp

text \<open>
  C4, on the failing input: strategies 1 to 3 find no URL, \<^verbatim>\<open>response.message\<close> is a string
  that holds an image URL, and the function returns \<^verbatim>\<open>null\<close>: path 3 has returned
  \<^verbatim>\<open>null\<close> on the non-empty \<^verbatim>\<open>result.artifact_files\<close> before the message is looked at.
\<close>

theorem C4_message_not_scanned:
  "path1 env_artifact_without_url = None
   \<and> path2 env_artifact_without_url = None
   \<and> path3 env_artifact_without_url = Some JNull
   \<and> get (get env_artifact_without_url ''response'') ''message''
       = JStr ''see https://x.com/a.png here''
   \<and> message_url_match ''see https://x.com/a.png here'' = Some ''https://x.com/a.png''
   \<and> extractImageUrl parse_throws env_artifact_without_url = JNull"
  by code_simp

section \<open>Strategy 5: the raw response\<close>

lemma artifact_file_url_element0:
  "artifact_file_url (get v ''module_outputs'') = element0_file_url v"
proof (cases "get (get v ''module_outputs'') ''artifact_files''")
  case (JArr xs)
  then show ?thesis
    by (cases xs) (simp_all add: artifact_file_url_def element0_file_url_def)
qed (simp_all add: artifact_file_url_def element0_file_url_def)

lemma raw_pattern:
  "url_rx raw_excluded raw_extensions =
     url_rx [CHR 0x09, CHR 0x0A, CHR 0x0B, CHR 0x0C, CHR 0x0D, CHR 0x20, CHR 0xA0,
             CHR 0x22, CHR 0x27, CHR ''<'', CHR ''>'', CHR 0x5C]
            [''png'', ''jpg'', ''jpeg'', ''webp'', ''gif'']"
  by (simp add: raw_excluded_def raw_extensions_def ws_chars_def)

lemma pf_five: "prefix_free [''png'', ''jpg'', ''jpeg'', ''webp'', ''gif'']"
  using pf_raw by (simp add: raw_extensions_def)

lemma w_five: "ext_widths 3 [''png'', ''jpg'', ''jpeg'', ''webp'', ''gif'']"
  by (simp add: ext_widths_def)

text \<open>
  C5 (as amended): when strategies 1 to 4 return nothing and \<^verbatim>\<open>raw_response\<close> is a string:
  if it parses as JSON, \<^verbatim>\<open>extractImageUrl\<close> returns the parsed value's
  \<^verbatim>\<open>module_outputs.artifact_files[0].file_url\<close> when that is truthy, else its
  \<^verbatim>\<open>response.module_outputs.artifact_files[0].file_url\<close> when that is truthy, else
  \<^verbatim>\<open>null\<close> (no URL-pattern scan after a successful parse); if parsing fails, it returns
  the first match in \<^verbatim>\<open>raw_response\<close> of an HTTP(S) URL that ends in one of
  \<^verbatim>\<open>png|jpg|jpeg|webp|gif\<close> (\<^verbatim>\<open>svg\<close> and \<^verbatim>\<open>bmp\<close> excluded), whose characters exclude white
  space, the two quotes, \<^verbatim>\<open><\<close>, \<^verbatim>\<open>>\<close> and also the backslash, and \<^verbatim>\<open>null\<close> when there is no
  such URL. (\<^verbatim>\<open>JSON.parse\<close> throws on the empty text.)
\<close>

theorem C5_raw_response:
  assumes "path1 env = None" and "path2 env = None" and "path3 env = None"
    and "path4 env = None"
    and "get env ''raw_response'' = JStr s"
    and "parse [] = None"
  shows "(\<forall>raw. parse s = Some raw \<longrightarrow>
            extractImageUrl parse env =
              (case element0_file_url raw of
                 Some u \<Rightarrow> u
               | None \<Rightarrow>
                   (case element0_file_url (get raw ''response'') of
                      Some u \<Rightarrow> u
                    | None \<Rightarrow> JNull)))
     \<and> (parse s = None \<longrightarrow>
            (\<exists>u. extractImageUrl parse env = JStr u
                \<and> first_match
                     (is_image_url
                        [CHR 0x09, CHR 0x0A, CHR 0x0B, CHR 0x0C, CHR 0x0D, CHR 0x20, CHR 0xA0,
                         CHR 0x22, CHR 0x27, CHR ''<'', CHR ''>'', CHR 0x5C]
                        [''png'', ''jpg'', ''jpeg'', ''webp'', ''gif'']) s u)
          \<or> (extractImageUrl parse env = JNull
                \<and> (\<forall>pre u post. s = pre @ u @ post \<longrightarrow>
                      \<not> is_image_url
                        [CHR 0x09, CHR 0x0A, CHR 0x0B, CHR 0x0C, CHR 0x0D, CHR 0x20, CHR 0xA0,
                         CHR 0x22, CHR 0x27, CHR ''<'', CHR ''>'', CHR 0x5C]
                        [''png'', ''jpg'', ''jpeg'', ''webp'', ''gif''] u)))"
proof -
  let ?X = "[CHR 0x09, CHR 0x0A, CHR 0x0B, CHR 0x0C, CHR 0x0D, CHR 0x20, CHR 0xA0,
             CHR 0x22, CHR 0x27, CHR ''<'', CHR ''>'', CHR 0x5C]"
  let ?E = "[''png'', ''jpg'', ''jpeg'', ''webp'', ''gif'']"
  have r: "extractImageUrl parse env = (case path5 parse env of Some v \<Rightarrow> v | None \<Rightarrow> JNull)"
    using assms(1-4) by (simp add: extractImageUrl_def)
  have 1: "extractImageUrl parse env =
              (case element0_file_url raw of
                 Some u \<Rightarrow> u
               | None \<Rightarrow>
                   (case element0_file_url (get raw ''response'') of
                      Some u \<Rightarrow> u
                    | None \<Rightarrow> JNull))"
    if p: "parse s = Some raw" for raw
  proof -
    from p assms(6) have "s \<noteq> []" by auto
    with p assms(5) have "path5 parse env =
        (case artifact_file_url (get raw ''module_outputs'') of
           Some u \<Rightarrow> Some u
         | None \<Rightarrow> artifact_file_url (get (get raw ''response'') ''module_outputs''))"
      by (simp add: path5_def)
    then show ?thesis unfolding r artifact_file_url_element0
      by (simp split: option.splits)
  qed
  have 2: "(\<exists>u. extractImageUrl parse env = JStr u \<and> first_match (is_image_url ?X ?E) s u)
          \<or> (extractImageUrl parse env = JNull
                \<and> (\<forall>pre u post. s = pre @ u @ post \<longrightarrow> \<not> is_image_url ?X ?E u))"
    if p: "parse s = None"
  proof (cases "search True (url_rx ?X ?E) s")
    case None
    have "path5 parse env = None"
    proof (cases "s = []")
      case True
      with assms(5) show ?thesis by (simp add: path5_def)
    next
      case False
      with p assms(5) None show ?thesis
        by (simp add: path5_def raw_url_match_def raw_pattern)
    qed
    then have "extractImageUrl parse env = JNull" unfolding r by simp
    moreover have "\<not> is_image_url ?X ?E u" if "s = pre @ u @ post" for pre u post
      using None that by (rule url_match_none)
    ultimately show ?thesis by blast
  next
    case (Some u)
    then have "s \<noteq> []" using ms_url_Nil [of ?X ?E] by (cases s) auto
    with p assms(5) Some have "path5 parse env = Some (JStr u)"
      by (simp add: path5_def raw_url_match_def raw_pattern)
    then have "extractImageUrl parse env = JStr u" unfolding r by simp
    moreover from Some have "first_match (is_image_url ?X ?E) s u"
      by (rule url_match_first [OF _ pf_five w_five])
    ultimately show ?thesis by blast
  qed
  from 1 2 show ?thesis by blast
qed

lemma raw_text_example:
  "extractImageUrl parse_throws env_raw_text = JStr ''https://x.com/a.png''"
  by code_simp

lemma message_pattern_on_raw_text:
  "message_url_match svg_then_png = Some ''https://x.com/b.svg''"
  by code_simp

theorem C5_witness:
  "path1 env_raw_text = None \<and> path2 env_raw_text = None \<and> path3 env_raw_text = None
   \<and> path4 env_raw_text = None
   \<and> get env_raw_text ''raw_response'' = JStr svg_then_png
   \<and> parse_throws [] = None \<and> parse_throws svg_then_png = None
   \<and> message_url_match svg_then_png = Some ''https://x.com/b.svg''
   \<and> extractImageUrl parse_throws env_raw_text = JStr ''https://x.com/a.png''
   \<and> first_match
        (is_image_url
           [CHR 0x09, CHR 0x0A, CHR 0x0B, CHR 0x0C, CHR 0x0D, CHR 0x20, CHR 0xA0,
            CHR 0x22, CHR 0x27, CHR ''<'', CHR ''>'', CHR 0x5C]
           [''png'', ''jpg'', ''jpeg'', ''webp'', ''gif''])
        svg_then_png ''https://x.com/a.png''
   \<and> path1 env_raw_json = None \<and> path2 env_raw_json = None \<and> path3 env_raw_json = None
   \<and> path4 env_raw_json = None
   \<and> get env_raw_json ''raw_response'' = JStr raw_json
   \<and> parse_sample [] = None \<and> parse_sample raw_json = Some parsed_json
   \<and> extractImageUrl parse_sample env_raw_json = JStr ''https://x.com/r.png''
   \<and> path1 env_raw_json_url = None \<and> path2 env_raw_json_url = None
   \<and> path3 env_raw_json_url = None \<and> path4 env_raw_json_url = None
   \<and> get env_raw_json_url ''raw_response'' = JStr raw_json_url
   \<and> parse_sample raw_json_url = Some (JObj [(''url'', JStr ''https://x.com/u.png'')])
   \<and> extractImageUrl parse_sample env_raw_json_url = JNull"
proof -
  have p: "path1 env_raw_text = None" "path2 env_raw_text = None" "path3 env_raw_text = None"
    "path4 env_raw_text = None"
    by (simp_all add: env_raw_text_def path1_def path2_def path3_def path4_def
        artifact_file_url_def)
  have r: "get env_raw_text ''raw_response'' = JStr svg_then_png"
    by (simp add: env_raw_text_def)
  have n: "parse_throws [] = None" "parse_throws svg_then_png = None"
    by (simp_all add: parse_throws_def)
  have q: "path1 env_raw_json = None" "path2 env_raw_json = None" "path3 env_raw_json = None"
    "path4 env_raw_json = None"
    by (simp_all add: env_raw_json_def path1_def path2_def path3_def path4_def
        artifact_file_url_def)
  have j: "get env_raw_json ''raw_response'' = JStr raw_json"
    by (simp add: env_raw_json_def)
  have q': "path1 env_raw_json_url = None" "path2 env_raw_json_url = None"
    "path3 env_raw_json_url = None" "path4 env_raw_json_url = None"
    by (simp_all add: env_raw_json_url_def path1_def path2_def path3_def path4_def
        artifact_file_url_def)
  have j': "get env_raw_json_url ''raw_response'' = JStr raw_json_url"
    by (simp add: env_raw_json_url_def)
  have m: "parse_sample [] = None" by (simp add: parse_sample_def raw_json_def raw_json_url_def)
  have s1: "parse_sample raw_json = Some parsed_json" by (simp add: parse_sample_def)
  have s2: "parse_sample raw_json_url = Some (JObj [(''url'', JStr ''https://x.com/u.png'')])"
    by (simp add: parse_sample_def raw_json_def raw_json_url_def)
  note t = C5_raw_response [of env_raw_text svg_then_png parse_throws, OF p r n(1)]
  from t n(2) raw_text_example
  have f: "first_match
        (is_image_url
           [CHR 0x09, CHR 0x0A, CHR 0x0B, CHR 0x0C, CHR 0x0D, CHR 0x20, CHR 0xA0,
            CHR 0x22, CHR 0x27, CHR ''<'', CHR ''>'', CHR 0x5C]
           [''png'', ''jpg'', ''jpeg'', ''webp'', ''gif''])
        svg_then_png ''https://x.com/a.png''"
    by auto
  from C5_raw_response [of env_raw_json raw_json parse_sample, OF q j m] s1
  have a: "extractImageUrl parse_sample env_raw_json = JStr ''https://x.com/r.png''"
    by (simp add: element0_file_url_def parsed_json_def)
  from C5_raw_response [of env_raw_json_url raw_json_url parse_sample, OF q' j' m] s2
  have b: "extractImageUrl parse_sample env_raw_json_url = JNull"
    by (simp add: element0_file_url_def)
  from p r n message_pattern_on_raw_text raw_text_example f q j m s1 a q' j' s2 b
  show ?thesis by simp
qed

text \<open>
  C5 as stated fails: on a raw response that is not JSON, the URL pattern of strategy 4
  with the extensions restricted to \<^verbatim>\<open>png|jpg|jpeg|webp|gif\<close> matches a URL that holds a
  backslash; the function returns \<^verbatim>\<open>null\<close>, because its pattern for the raw response
  excludes the backslash too.
\<close>

theorem C5_counterexample:
  "path1 env_raw_backslash = None \<and> path2 env_raw_backslash = None
   \<and> path3 env_raw_backslash = None \<and> path4 env_raw_backslash = None
   \<and> get env_raw_backslash ''raw_response'' = JStr raw_backslash
   \<and> parse_throws raw_backslash = None
   \<and> search True (url_rx message_excluded raw_extensions) raw_backslash
       = Some (''https://x.com/a?x=1'' @ [CHR 0x5C] @ ''u0026f=b.png'')
   \<and> extractImageUrl parse_throws env_raw_backslash = JNull"
  by code_simp

section \<open>The result is null or truthy\<close>

lemma file0_truthy: "file0 v = Some u \<Longrightarrow> truthy u"
  by (cases v) (auto split: if_splits)

lemma artifact_file_url_truthy: "artifact_file_url mo = Some u \<Longrightarrow> truthy u"
  by (auto simp: artifact_file_url_def split: if_splits dest: file0_truthy)

lemma scan_values_truthy: "scan_values vals = Some u \<Longrightarrow> truthy u"
  by (induction vals rule: scan_values.induct) (auto split: if_splits)

lemma path1_truthy: "path1 env = Some u \<Longrightarrow> truthy u"
  by (auto simp: path1_def dest: artifact_file_url_truthy)

lemma path2_truthy: "path2 env = Some u \<Longrightarrow> truthy u"
  by (auto simp: path2_def Let_def split: if_splits dest: scan_values_truthy)

lemma path3_on_truthy: "path3_on r = Some u \<Longrightarrow> truthy u \<or> u = JNull"
  by (auto simp: path3_on_def or_js_def split: if_splits jv.splits list.splits
      dest: artifact_file_url_truthy)

lemma path3_truthy: "path3 env = Some u \<Longrightarrow> truthy u \<or> u = JNull"
  by (auto simp: path3_def Let_def split: if_splits dest: path3_on_truthy)

lemma path4_truthy: "path4 env = Some u \<Longrightarrow> truthy u"
  by (auto simp: path4_def message_url_match_def split: jv.splits if_splits
      dest: url_match_nonempty)

lemma path5_truthy: "path5 parse env = Some u \<Longrightarrow> truthy u"
  by (auto simp: path5_def raw_url_match_def split: jv.splits if_splits option.splits
      dest: url_match_nonempty artifact_file_url_truthy)

lemma extractImageUrl_null_or_truthy:
  "extractImageUrl parse env = JNull \<or> truthy (extractImageUrl parse env)"
  using path1_truthy [of env] path2_truthy [of env] path3_truthy [of env] path4_truthy [of env]
    path5_truthy [of parse env]
  by (auto simp: extractImageUrl_def split: option.splits)

text \<open>
  C6: when no extraction strategy matches (no path returns a value, or path 3 returns
  \<^verbatim>\<open>null\<close>), \<^verbatim>\<open>extractImageUrl\<close> returns \<^verbatim>\<open>null\<close>; and for every envelope the result
  is never the empty string: it is \<^verbatim>\<open>null\<close> or a truthy value.
\<close>

theorem C6_null_never_empty:
  "(path1 env = None \<and> path2 env = None \<and> (path3 env = None \<or> path3 env = Some JNull)
      \<and> path4 env = None \<and> path5 parse env = None
     \<longrightarrow> extractImageUrl parse env = JNull)
   \<and> extractImageUrl parse env \<noteq> JStr []
   \<and> (extractImageUrl parse env = JNull \<or> truthy (extractImageUrl parse env))"
proof -
  have "extractImageUrl parse env = JNull"
    if "path1 env = None" "path2 env = None" "path3 env = None \<or> path3 env = Some JNull"
      "path4 env = None" "path5 parse env = None"
    using that by (auto simp: extractImageUrl_def)
  moreover have "extractImageUrl parse env \<noteq> JStr []"
    using extractImageUrl_null_or_truthy [of parse env] by auto
  ultimately show ?thesis using extractImageUrl_null_or_truthy [of parse env] by blast
qed

theorem C6_witness:
  "path1 env_nothing = None \<and> path2 env_nothing = None \<and> path3 env_nothing = None
   \<and> path4 env_nothing = None \<and> path5 parse_throws env_nothing = None
   \<and> extractImageUrl parse_throws env_nothing = JNull
   \<and> extractImageUrl parse_throws env_nothing \<noteq> JStr []"
proof -
  have p: "path1 env_nothing = None" "path2 env_nothing = None" "path3 env_nothing = None"
    "path4 env_nothing = None" "path5 parse_throws env_nothing = None"
    by (simp_all add: env_nothing_def path1_def path2_def path3_def path4_def path5_def
        artifact_file_url_def)
  from C6_null_never_empty [of env_nothing parse_throws] p show ?thesis by simp
qed

section \<open>Properties of extractTransformationDetails\<close>

lemma desc_of_first_truthy:
  "desc_of r = first_truthy r [''transformation_description'', ''description'', ''text'', ''message'']"
  by (simp add: desc_of_def first_truthy_def or_js_def)

lemma styles_of_first_truthy:
  "styles_of r = first_truthy r [''style_elements_applied'', ''styles'', ''elements'']"
  by (simp add: styles_of_def first_truthy_def or_js_def)

lemma colors_of_first_truthy:
  "colors_of r = first_truthy r [''color_palette_used'', ''colors'', ''palette'']"
  by (simp add: colors_of_def first_truthy_def or_js_def)

text \<open>
  C7 (as amended): when \<^verbatim>\<open>response.result\<close> is a mapping, each of the three fields is
  derived from the first truthy of its candidate keys, in their order, with the empty
  string as the default; a truthy value that is not a string is serialized with
  \<^verbatim>\<open>JSON.stringify\<close>; the record, with all three keys, is returned from the mapping
  exactly when one of the three derived values is truthy, and otherwise the function
  goes on to the fallback on \<^verbatim>\<open>response.message\<close>.
\<close>

theorem C7_result_details:
  assumes "get (get env ''response'') ''result'' = JObj r"
  shows "extractTransformationDetails stringify env =
     (let d = first_truthy (JObj r)
                [''transformation_description'', ''description'', ''text'', ''message''];
          s = first_truthy (JObj r) [''style_elements_applied'', ''styles'', ''elements''];
          c = first_truthy (JObj r) [''color_palette_used'', ''colors'', ''palette'']
      in if truthy d \<or> truthy s \<or> truthy c
         then Some \<lparr>transformation_description = as_text stringify d,
                    style_elements_applied = as_text stringify s,
                    color_palette_used = as_text stringify c\<rparr>
         else message_details env)"
  using assms
  by (simp add: extractTransformationDetails_def result_details_def Let_def
      desc_of_first_truthy [symmetric] styles_of_first_truthy [symmetric]
      colors_of_first_truthy [symmetric])

theorem C7_witness:
  \<open>get (get env_styles ''response'') ''result'' = JObj [(''styles'', JStr ''a, b'')]
   \<and> extractTransformationDetails json_stringify env_styles =
       Some \<lparr>transformation_description = JStr [],
             style_elements_applied = JStr ''a, b'',
             color_palette_used = JStr []\<rparr>
   \<and> get (get env_styles_list ''response'') ''result''
       = JObj [(''styles'', JArr [JStr ''a'', JStr ''b'']), (''colors'', JNum 0)]
   \<and> extractTransformationDetails json_stringify env_styles_list =
       Some \<lparr>transformation_description = JStr [],
             style_elements_applied = JStr ''["a","b"]'',
             color_palette_used = JStr []\<rparr>\<close>
proof -
  have a: "get (get env_styles ''response'') ''result'' = JObj [(''styles'', JStr ''a, b'')]"
    by (simp add: env_styles_def)
  have b: "get (get env_styles_list ''response'') ''result''
       = JObj [(''styles'', JArr [JStr ''a'', JStr ''b'']), (''colors'', JNum 0)]"
    by (simp add: env_styles_list_def)
  have q: \<open>json_stringify (JArr [JStr ''a'', JStr ''b'']) = JStr ''["a","b"]''\<close>
    by (simp add: json_stringify_def quote_json_def esc_char_def)
  from C7_result_details [OF a, of json_stringify] C7_result_details [OF b, of json_stringify]
    a b q
  show ?thesis by (simp add: first_truthy_def)
qed

text \<open>
  C7 as stated fails: the first present candidate for the description is
  \<^verbatim>\<open>transformation_description\<close>, with the value \<^verbatim>\<open>""\<close>, and the description returned is
  the value of \<^verbatim>\<open>description\<close>.
\<close>

theorem C7_counterexample:
  "get (get (get env_empty_description ''response'') ''result'') ''transformation_description''
     = JStr []
   \<and> extractTransformationDetails json_stringify env_empty_description =
       Some \<lparr>transformation_description = JStr ''d'',
             style_elements_applied = JStr [],
             color_palette_used = JStr []\<rparr>"
  by (simp add: env_empty_description_def extractTransformationDetails_def result_details_def
      desc_of_def styles_of_def colors_of_def or_js_def)

text \<open>
  C8 (as amended): when the mapping path yields no truthy field, the function returns
  a record with \<^verbatim>\<open>transformation_description\<close> set to \<^verbatim>\<open>response.message\<close> and the
  other two fields empty when \<^verbatim>\<open>response.message\<close> is truthy (for a string: non-empty), and
  \<^verbatim>\<open>null\<close> otherwise; in particular it returns \<^verbatim>\<open>null\<close> when the envelope has no result
  mapping and no \<^verbatim>\<open>response.message\<close>.
\<close>

theorem C8_message_fallback:
  assumes "truthy (get (get env ''response'') ''result'')
           \<and> is_object (get (get env ''response'') ''result'')
     \<longrightarrow> \<not> truthy (desc_of (get (get env ''response'') ''result''))
       \<and> \<not> truthy (styles_of (get (get env ''response'') ''result''))
       \<and> \<not> truthy (colors_of (get (get env ''response'') ''result''))"
  shows "extractTransformationDetails stringify env =
     (if truthy (get (get env ''response'') ''message'')
      then Some \<lparr>transformation_description = get (get env ''response'') ''message'',
                 style_elements_applied = JStr [],
                 color_palette_used = JStr []\<rparr>
      else None)"
  using assms
  by (auto simp: extractTransformationDetails_def result_details_def message_details_def Let_def)

theorem C8_witness:
  "extractTransformationDetails json_stringify env_message_fallback =
       Some \<lparr>transformation_description = JStr ''done'',
             style_elements_applied = JStr [],
             color_palette_used = JStr []\<rparr>
   \<and> get (get env_nothing ''response'') ''result'' = JUndefined
   \<and> get (get env_nothing ''response'') ''message'' = JUndefined
   \<and> extractTransformationDetails json_stringify env_nothing = None"
proof -
  have a: "truthy (get (get env_message_fallback ''response'') ''result'')
           \<and> is_object (get (get env_message_fallback ''response'') ''result'')
     \<longrightarrow> \<not> truthy (desc_of (get (get env_message_fallback ''response'') ''result''))
       \<and> \<not> truthy (styles_of (get (get env_message_fallback ''response'') ''result''))
       \<and> \<not> truthy (colors_of (get (get env_message_fallback ''response'') ''result''))"
    by (simp add: env_message_fallback_def desc_of_def styles_of_def colors_of_def or_js_def)
  have b: "truthy (get (get env_nothing ''response'') ''result'')
           \<and> is_object (get (get env_nothing ''response'') ''result'')
     \<longrightarrow> \<not> truthy (desc_of (get (get env_nothing ''response'') ''result''))
       \<and> \<not> truthy (styles_of (get (get env_nothing ''response'') ''result''))
       \<and> \<not> truthy (colors_of (get (get env_nothing ''response'') ''result''))"
    by (simp add: env_nothing_def)
  from C8_message_fallback [OF a, of json_stringify] C8_message_fallback [OF b, of json_stringify]
  show ?thesis by (simp add: env_message_fallback_def env_nothing_def)
qed

text \<open>
  C8 as stated fails: \<^verbatim>\<open>response.message\<close> is present, with the value \<^verbatim>\<open>""\<close>, there is no
  result mapping, and the function returns \<^verbatim>\<open>null\<close>, not a record.
\<close>

theorem C8_counterexample:
  "get (get env_empty_message ''response'') ''message'' = JStr []
   \<and> get (get env_empty_message ''response'') ''result'' = JUndefined
   \<and> extractTransformationDetails json_stringify env_empty_message = None"
  by (simp add: env_empty_message_def extractTransformationDetails_def message_details_def)

section \<open>Properties of the transform workflow\<close>

lemma try_transform_upload_without_assets:
  assumes "uploadFiles file = Resolved u" and "truthy (get u ''success'')"
    and "\<not> nonempty_array (get u ''asset_ids'')"
  shows "try_transform step4 step5 uploadFiles callAIAgent file styleNote st
    = (st, [UploadFiles file], Some (upload_error u))"
  using assms truthy_not_nullish [OF assms(2)]
  by (simp add: try_transform_def not_nonempty_array)

text \<open>
  C9: when the upload collaborator returns success with an \<^verbatim>\<open>asset_ids\<close> that is empty or
  not a sequence, the run ends in the failed state, with the collaborator's error
  message if it gave a (truthy) one and the generic fallback otherwise, with no result,
  and the only collaborator call made is the upload: the agent is never called.
\<close>

theorem C9_upload_without_assets:
  assumes "uploadFiles file = Resolved u" and "truthy (get u ''success'')"
    and "\<not> nonempty_array (get u ''asset_ids'')"
  shows "handleTransform parse stringify uploadFiles callAIAgent (Some file) styleNote st =
     (st\<lparr>isTransforming := False,
         error := Some (Text (to_string_js
                    (if truthy (get u ''error'') then get u ''error''
                     else JStr ''Failed to upload image''))),
         resultImageUrl := JNull,
         transformationDetails := None,
         statusMessage := None\<rparr>,
      [UploadFiles file])"
  by (simp add: handleTransform_def run_handler_def
      try_transform_upload_without_assets [of uploadFiles "file" u, OF assms]
      upload_error_def or_js_def)

theorem C9_witness:
  "upload_empty ''photo.png'' = Resolved (JObj [(''success'', JBool True), (''asset_ids'', JArr [])])
   \<and> handleTransform parse_throws json_stringify upload_empty agent_ok (Some ''photo.png'') ''neon'' idle
       = (idle\<lparr>error := Some (Text ''Failed to upload image'')\<rparr>, [UploadFiles ''photo.png''])
   \<and> handleTransform parse_throws json_stringify upload_malformed agent_ok (Some ''photo.png'') ''neon'' idle
       = (idle\<lparr>error := Some (Text ''quota exceeded'')\<rparr>, [UploadFiles ''photo.png''])"
proof -
  have a: "upload_empty ''photo.png''
      = Resolved (JObj [(''success'', JBool True), (''asset_ids'', JArr [])])"
    by (simp add: upload_empty_def)
  have a1: "truthy (get (JObj [(''success'', JBool True), (''asset_ids'', JArr [])]) ''success'')"
    by simp
  have a2: "\<not> nonempty_array (get (JObj [(''success'', JBool True), (''asset_ids'', JArr [])]) ''asset_ids'')"
    by simp
  have b: "upload_malformed ''photo.png''
      = Resolved (JObj [(''success'', JBool True), (''asset_ids'', JStr ''asset-1''),
                     (''error'', JStr ''quota exceeded'')])"
    by (simp add: upload_malformed_def)
  have b1: "truthy (get (JObj [(''success'', JBool True), (''asset_ids'', JStr ''asset-1''),
                     (''error'', JStr ''quota exceeded'')]) ''success'')"
    by simp
  have b2: "\<not> nonempty_array (get (JObj [(''success'', JBool True), (''asset_ids'', JStr ''asset-1''),
                     (''error'', JStr ''quota exceeded'')]) ''asset_ids'')"
    by simp
  from C9_upload_without_assets [of upload_empty "''photo.png''" _ parse_throws json_stringify
      agent_ok "''neon''" idle, OF a a1 a2]
    C9_upload_without_assets [of upload_malformed "''photo.png''" _ parse_throws json_stringify
      agent_ok "''neon''" idle, OF b b1 b2]
    a
  show ?thesis by (simp add: idle_def)
qed

lemma trim_blank: "list_all is_space s \<Longrightarrow> trim s = []"
  by (auto simp: trim_def list_all_iff dest: set_dropWhileD)

lemma trim_nonblank: "\<not> list_all is_space s \<Longrightarrow> trim s \<noteq> []"
proof -
  assume "\<not> list_all is_space s"
  then have "dropWhile is_space s \<noteq> []" by (simp add: list_all_iff)
  then have "\<not> is_space (hd (dropWhile is_space s))" by (rule hd_dropWhile)
  moreover have "hd (dropWhile is_space s) \<in> set (rev (dropWhile is_space s))"
    using \<open>dropWhile is_space s \<noteq> []\<close> by simp
  ultimately have "dropWhile is_space (rev (dropWhile is_space s)) \<noteq> []"
    by (auto simp: dropWhile_eq_Nil_conv)
  then show ?thesis by (simp add: trim_def)
qed

lemma trim_decomposition:
  "\<exists>l r. s = l @ trim s @ r \<and> list_all is_space l \<and> list_all is_space r"
proof -
  let ?m = "dropWhile is_space s"
  have "s = takeWhile is_space s @ ?m" by simp
  moreover have "rev ?m = takeWhile is_space (rev ?m) @ dropWhile is_space (rev ?m)" by simp
  then have "?m = rev (dropWhile is_space (rev ?m)) @ rev (takeWhile is_space (rev ?m))"
    by (metis rev_append rev_rev_ident)
  ultimately have "s = takeWhile is_space s @ trim s @ rev (takeWhile is_space (rev ?m))"
    by (simp add: trim_def)
  moreover have "list_all is_space (takeWhile is_space s)"
    by (auto simp: list_all_iff dest: set_takeWhileD)
  moreover have "list_all is_space (rev (takeWhile is_space (rev ?m)))"
    by (auto simp: list_all_iff dest: set_takeWhileD)
  ultimately show ?thesis by blast
qed

lemma trim_ends:
  assumes "trim s \<noteq> []"
  shows "\<not> is_space (hd (trim s)) \<and> \<not> is_space (last (trim s))"
proof -
  let ?m = "dropWhile is_space s"
  let ?n = "dropWhile is_space (rev ?m)"
  from assms have n: "?n \<noteq> []" by (simp add: trim_def)
  then have "\<not> is_space (hd ?n)" by (rule hd_dropWhile)
  then have l: "\<not> is_space (last (trim s))" using n by (simp add: trim_def last_rev)
  from n have m: "?m \<noteq> []" by (metis dropWhile.simps(1) rev.simps(1))
  then have h: "\<not> is_space (hd ?m)" by (rule hd_dropWhile)
  have "rev ?m = takeWhile is_space (rev ?m) @ ?n" by simp
  then have "?m = rev ?n @ rev (takeWhile is_space (rev ?m))"
    by (metis rev_append rev_rev_ident)
  then have "hd ?m = hd (rev ?n)" using n by (metis hd_append2 rev_is_Nil_conv)
  with h have "\<not> is_space (hd (trim s))" by (simp add: trim_def)
  with l show ?thesis by simp
qed

lemma build_message_cases:
  "build_message styleNote =
     BRAND_INSTRUCTION @
       (if list_all is_space styleNote then []
        else '' Additional style direction: '' @ trim styleNote)"
  by (simp add: build_message_def trim_blank trim_nonblank)

lemma build_message_blank: "list_all is_space styleNote \<Longrightarrow> build_message styleNote = build_message []"
  by (simp add: build_message_cases)

lemma try_transform_message:
  assumes e: "build_message n1 = build_message n2"
  shows "try_transform step4 step5 uploadFiles callAIAgent file n1 st
     = try_transform step4 step5 uploadFiles callAIAgent file n2 st"
  unfolding try_transform_def e ..

lemma try_transform_calls:
  assumes "uploadFiles file = Resolved u" and "truthy (get u ''success'')"
    and "get u ''asset_ids'' = JArr (a # ids)"
  shows "fst (snd (try_transform step4 step5 uploadFiles callAIAgent file styleNote st))
    = [UploadFiles file, CallAIAgent (build_message styleNote) AGENT_ID [a]]"
  using assms truthy_not_nullish [OF assms(2)]
  by (simp add: try_transform_def Let_def split: outcome.splits prod.splits)

text \<open>
  C10: the outgoing message is the fixed brand-style instruction, followed, when the style
  directive is not blank, by the separator and the trimmed directive. A directive of
  white space only gives the same run as the empty directive. Whenever the upload
  succeeds, the agent is called once, with exactly that message.
\<close>

theorem C10_style_directive:
  "build_message styleNote =
     BRAND_INSTRUCTION @
       (if list_all is_space styleNote then []
        else '' Additional style direction: '' @ trim styleNote)
   \<and> (list_all is_space styleNote \<longrightarrow>
        handleTransform parse stringify uploadFiles callAIAgent selectedFile styleNote st
          = handleTransform parse stringify uploadFiles callAIAgent selectedFile [] st)
   \<and> (uploadFiles file = Resolved u \<and> truthy (get u ''success'')
        \<and> get u ''asset_ids'' = JArr (a # ids) \<longrightarrow>
        snd (handleTransform parse stringify uploadFiles callAIAgent (Some file) styleNote st)
          = [UploadFiles file, CallAIAgent (build_message styleNote) AGENT_ID [a]])"
proof (intro conjI impI)
  show "build_message styleNote =
     BRAND_INSTRUCTION @
       (if list_all is_space styleNote then []
        else '' Additional style direction: '' @ trim styleNote)"
    by (rule build_message_cases)
next
  assume "list_all is_space styleNote"
  then have e: "build_message styleNote = build_message []" by (rule build_message_blank)
  show "handleTransform parse stringify uploadFiles callAIAgent selectedFile styleNote st
          = handleTransform parse stringify uploadFiles callAIAgent selectedFile [] st"
    unfolding handleTransform_def run_handler_def try_transform_message [OF e] ..
next
  assume h: "uploadFiles file = Resolved u \<and> truthy (get u ''success'')
        \<and> get u ''asset_ids'' = JArr (a # ids)"
  then have c: "fst (snd (try_transform (extract_step parse) (extractTransformationDetails stringify)
      uploadFiles callAIAgent file styleNote
      (st\<lparr>isTransforming := True, error := None, resultImageUrl := JNull,
          transformationDetails := None, statusMessage := Some ''Uploading image...''\<rparr>)))
    = [UploadFiles file, CallAIAgent (build_message styleNote) AGENT_ID [a]]"
    by (simp add: try_transform_calls)
  obtain st1 calls t where r: "try_transform (extract_step parse) (extractTransformationDetails stringify)
      uploadFiles callAIAgent file styleNote
      (st\<lparr>isTransforming := True, error := None, resultImageUrl := JNull,
          transformationDetails := None, statusMessage := Some ''Uploading image...''\<rparr>)
    = (st1, calls, t)"
    by (rule prod_cases3)
  with c have "calls = [UploadFiles file, CallAIAgent (build_message styleNote) AGENT_ID [a]]"
    by simp
  with r show "snd (handleTransform parse stringify uploadFiles callAIAgent (Some file) styleNote st)
          = [UploadFiles file, CallAIAgent (build_message styleNote) AGENT_ID [a]]"
    by (cases t) (simp_all add: handleTransform_def run_handler_def)
qed

lemma blank_note_blank: "list_all is_space blank_note"
  by (simp add: blank_note_def is_space_def ws_chars_def)

lemma trim_example: "trim ''  neon glow '' = ''neon glow''"
  by (simp add: trim_def is_space_def ws_chars_def)

theorem C10_witness:
  "list_all is_space blank_note
   \<and> build_message blank_note = BRAND_INSTRUCTION
   \<and> build_message [] = BRAND_INSTRUCTION
   \<and> handleTransform parse_throws json_stringify upload_ok agent_ok (Some ''photo.png'') blank_note idle
       = handleTransform parse_throws json_stringify upload_ok agent_ok (Some ''photo.png'') [] idle
   \<and> snd (handleTransform parse_throws json_stringify upload_ok agent_ok (Some ''photo.png'') blank_note idle)
       = [UploadFiles ''photo.png'', CallAIAgent BRAND_INSTRUCTION AGENT_ID [JStr ''asset-1'']]
   \<and> snd (handleTransform parse_throws json_stringify upload_ok agent_ok (Some ''photo.png'')
            ''  neon glow '' idle)
       = [UploadFiles ''photo.png'',
          CallAIAgent (BRAND_INSTRUCTION @ '' Additional style direction: neon glow'') AGENT_ID
            [JStr ''asset-1'']]"
proof -
  have u: "upload_ok ''photo.png'' = Resolved (JObj [(''success'', JBool True), (''asset_ids'', JArr [JStr ''asset-1''])])
    \<and> truthy (get (JObj [(''success'', JBool True), (''asset_ids'', JArr [JStr ''asset-1''])]) ''success'')
    \<and> get (JObj [(''success'', JBool True), (''asset_ids'', JArr [JStr ''asset-1''])]) ''asset_ids''
        = JArr (JStr ''asset-1'' # [])"
    by (simp add: upload_ok_def)
  have n: "\<not> list_all is_space ''  neon glow ''"
    by (simp add: is_space_def ws_chars_def)
  note b = C10_style_directive [of blank_note parse_throws json_stringify upload_ok agent_ok
      "Some ''photo.png''" idle "''photo.png''"
      "JObj [(''success'', JBool True), (''asset_ids'', JArr [JStr ''asset-1''])]"
      "JStr ''asset-1''" "[]"]
  note g = C10_style_directive [of "''  neon glow ''" parse_throws json_stringify upload_ok agent_ok
      "Some ''photo.png''" idle "''photo.png''"
      "JObj [(''success'', JBool True), (''asset_ids'', JArr [JStr ''asset-1''])]"
      "JStr ''asset-1''" "[]"]
  note e = C10_style_directive [of "[]" parse_throws json_stringify upload_ok agent_ok
      "Some ''photo.png''" idle "''photo.png''"
      "JObj [(''success'', JBool True), (''asset_ids'', JArr [JStr ''asset-1''])]"
      "JStr ''asset-1''" "[]"]
  from b e blank_note_blank have 1: "build_message blank_note = BRAND_INSTRUCTION"
    "build_message [] = BRAND_INSTRUCTION" by simp_all
  from b blank_note_blank have 2:
    "handleTransform parse_throws json_stringify upload_ok agent_ok (Some ''photo.png'') blank_note idle
       = handleTransform parse_throws json_stringify upload_ok agent_ok (Some ''photo.png'') [] idle"
    by blast
  from b u 1 have 3:
    "snd (handleTransform parse_throws json_stringify upload_ok agent_ok (Some ''photo.png'') blank_note idle)
       = [UploadFiles ''photo.png'', CallAIAgent BRAND_INSTRUCTION AGENT_ID [JStr ''asset-1'']]"
    by simp
  from g n have "build_message ''  neon glow ''
      = BRAND_INSTRUCTION @ '' Additional style direction: '' @ trim ''  neon glow ''"
    by simp
  then have 4: "build_message ''  neon glow ''
      = BRAND_INSTRUCTION @ '' Additional style direction: neon glow''"
    unfolding trim_example by simp
  from g u have "snd (handleTransform parse_throws json_stringify upload_ok agent_ok (Some ''photo.png'')
            ''  neon glow '' idle)
       = [UploadFiles ''photo.png'', CallAIAgent (build_message ''  neon glow '') AGENT_ID
            [JStr ''asset-1'']]"
    by blast
  with 4 have 5: "snd (handleTransform parse_throws json_stringify upload_ok agent_ok (Some ''photo.png'')
            ''  neon glow '' idle)
       = [UploadFiles ''photo.png'',
          CallAIAgent (BRAND_INSTRUCTION @ '' Additional style direction: neon glow'') AGENT_ID
            [JStr ''asset-1'']]"
    by simp
  from blank_note_blank 1 2 3 5 show ?thesis by simp
qed

end
